theory Spec2Isabelle
  imports Complex_Main "HOL-Library.Word"
begin

unbundle bit_operations_syntax

section \<open>Typed arrays over one ArrayBuffer\<close>

text \<open>
  A \<open>Uint8Array\<close> is a list of bytes. A \<open>Float32Array\<close> built on the same ArrayBuffer
  reinterprets four consecutive bytes, little-endian, as one 32-bit float; a sample is
  kept as its 32-bit pattern, so that nothing is lost between bytes and samples.
  JavaScript numbers that measure time (seconds) are modelled as exact reals.
\<close>

type_synonym byte = "8 word"
type_synonym sample = "32 word"

definition float32_of_bytes :: "byte \<Rightarrow> byte \<Rightarrow> byte \<Rightarrow> byte \<Rightarrow> sample" where
  "float32_of_bytes b0 b1 b2 b3 =
     ucast b0 OR push_bit 8 (ucast b1) OR push_bit 16 (ucast b2) OR push_bit 24 (ucast b3)"

definition bytes_of_float32 :: "sample \<Rightarrow> byte list" where
  "bytes_of_float32 w =
     [ucast w, ucast (drop_bit 8 w), ucast (drop_bit 16 w), ucast (drop_bit 24 w)]"

fun float32_elements :: "byte list \<Rightarrow> sample list" where
  "float32_elements (b0 # b1 # b2 # b3 # bs) = float32_of_bytes b0 b1 b2 b3 # float32_elements bs"
| "float32_elements bs = []"

text \<open>
  \<open>new Float32Array(buffer, byteOffset, n)\<close> and \<open>new Uint8Array(buffer, byteOffset, n)\<close>:
  views of \<open>n\<close> elements starting at \<open>byteOffset\<close>. The loop below only asks for views that
  lie inside the buffer, where the constructors do not throw.
\<close>

definition Float32Array_view :: "byte list \<Rightarrow> nat \<Rightarrow> nat \<Rightarrow> sample list" where
  "Float32Array_view buffer byteOffset n = take n (float32_elements (drop byteOffset buffer))"

definition Uint8Array_view :: "byte list \<Rightarrow> nat \<Rightarrow> nat \<Rightarrow> byte list" where
  "Uint8Array_view buffer byteOffset n = take n (drop byteOffset buffer)"

text \<open>\<open>target.set(src, offset)\<close> on typed arrays, for \<open>offset + length src \<le> length target\<close>.\<close>

definition typed_array_set :: "sample list \<Rightarrow> nat \<Rightarrow> sample list \<Rightarrow> sample list" where
  "typed_array_set src offset target =
     take offset target @ src @ drop (offset + length src) target"

section \<open>The two playback engines\<close>

record audio_buffer =
  ab_channel :: "sample list"
  ab_sampleRate :: nat

definition ab_duration :: "audio_buffer \<Rightarrow> real" where
  "ab_duration b = real (length (ab_channel b)) / real (ab_sampleRate b)"

text \<open>
  \<open>createBuffer(1, len, rate)\<close> gives one silent channel of \<open>len\<close> frames and throws a
  \<open>NotSupportedError\<close> for \<open>len = 0\<close>; \<open>copyToChannel(src, 0)\<close> fills the channel.
  Reading a property of \<open>null\<close> throws a \<open>TypeError\<close>.
\<close>

datatype error = NotSupportedError | TypeError

definition createBuffer :: "nat \<Rightarrow> nat \<Rightarrow> error + audio_buffer" where
  "createBuffer len rate =
     (if len = 0 then Inl NotSupportedError
      else Inr \<lparr>ab_channel = replicate len 0, ab_sampleRate = rate\<rparr>)"

definition copyToChannel :: "sample list \<Rightarrow> audio_buffer \<Rightarrow> audio_buffer" where
  "copyToChannel src b =
     b\<lparr>ab_channel := take (length (ab_channel b)) src @ drop (length src) (ab_channel b)\<rparr>"

record source_node =
  node_buffer :: audio_buffer
  node_startTime :: real

record audio_context =
  ctx_sampleRate :: nat
  ctx_currentTime :: real
  ctx_running :: bool

text \<open>The refs of \<open>useWebAudio\<close>.\<close>

record web_audio =
  audioContext :: "audio_context option"
  originalBuffer :: "audio_buffer option"
  activeSources :: "source_node list"
  isAudioPlaying :: bool

text \<open>
  The \<open>HTMLAudioElement\<close> held by \<open>useHTML5Audio\<close>. Its source is the WAV resource made
  from an audio buffer; \<open>el_canplay_once\<close> says that a one-time \<open>canplay\<close> listener is
  registered. \<open>el_onended\<close> holds the \<open>ended\<close> listeners in the order of their
  registration: each calls the \<open>stop\<close> of the \<open>streamAudio\<close> call that registered it,
  and is kept as the \<open>isAudioTransitioned\<close> which that \<open>stop\<close> reads.
\<close>

record audio_element =
  el_src :: "audio_buffer option"
  el_currentTime :: real
  el_paused :: bool
  el_canplay_once :: bool
  el_onended :: "bool list"

section \<open>The hook's state\<close>

record options =
  sampleRate :: nat
  enableTransition :: bool

text \<open>
  The React state of \<open>useStreamAudio\<close> and of \<open>useWebAudio\<close>, the refs of the two
  inner hooks, the source nodes that carry an \<open>ended\<close> listener which has not run yet
  (oldest first, each with the \<open>isAudioTransitioned\<close> which the \<open>stop\<close> of its listener
  reads), and the arguments of every call made so far to the WAV encoder
  (\<open>audioBufferToWav\<close>).
\<close>

record hook =
  isPlaying :: bool
  isAudioReady :: bool
  isAudioTransitioned :: bool
  currentTime :: real
  duration :: real
  isAudioSuspended :: bool
  webAudio :: web_audio
  audioRef :: "audio_element option"
  endedListeners :: "(source_node \<times> bool) list"
  wavCalls :: "audio_buffer list"

definition initial :: "options \<Rightarrow> hook" where
  "initial opts =
     \<lparr>isPlaying = False, isAudioReady = False, isAudioTransitioned = False,
      currentTime = 0, duration = 0, isAudioSuspended = False,
      webAudio = \<lparr>audioContext = Some \<lparr>ctx_sampleRate = sampleRate opts, ctx_currentTime = 0,
                                        ctx_running = True\<rparr>,
                  originalBuffer = None, activeSources = [], isAudioPlaying = False\<rparr>,
      audioRef = Some \<lparr>el_src = None, el_currentTime = 0, el_paused = True,
                       el_canplay_once = False, el_onended = []\<rparr>,
      endedListeners = [], wavCalls = []\<rparr>"

definition updatePlayingState :: "bool \<Rightarrow> hook \<Rightarrow> hook" where
  "updatePlayingState playing h = h\<lparr>isPlaying := playing\<rparr>"

subsection \<open>useWebAudio\<close>

text \<open>
  \<open>stopStream\<close> calls \<open>stop()\<close> and \<open>disconnect()\<close> on every active node inside a
  \<open>try\<close> whose \<open>catch\<close> is empty, then drops the nodes: whatever a node answers, no
  exception leaves the function and the hook keeps no reference to the node.
\<close>

definition stopStream :: "hook \<Rightarrow> hook" where
  "stopStream h =
     updatePlayingState False
       (h\<lparr>webAudio := (webAudio h)\<lparr>isAudioPlaying := False, activeSources := []\<rparr>\<rparr>)"

definition pauseStream :: "hook \<Rightarrow> hook" where
  "pauseStream h =
     updatePlayingState False
       (h\<lparr>webAudio := (webAudio h)\<lparr>audioContext :=
            map_option (\<lambda>c. c\<lparr>ctx_running := False\<rparr>) (audioContext (webAudio h))\<rparr>\<rparr>)"

definition playStream :: "hook \<Rightarrow> hook" where
  "playStream h =
     (case audioContext (webAudio h) of
        None \<Rightarrow> h
      | Some c \<Rightarrow>
          updatePlayingState True
            (h\<lparr>webAudio := (webAudio h)\<lparr>audioContext := Some (c\<lparr>ctx_running := True\<rparr>)\<rparr>\<rparr>))"

text \<open>
  The listener for \<open>statechange\<close> on the audio context, which the context fires after
  \<open>suspend()\<close> and \<open>resume()\<close>.
\<close>

definition handleStateChange :: "hook \<Rightarrow> hook" where
  "handleStateChange h =
     (case audioContext (webAudio h) of
        None \<Rightarrow> h
      | Some c \<Rightarrow> h\<lparr>isAudioSuspended := \<not> ctx_running c\<rparr>)"

definition web_getCurrentTime :: "hook \<Rightarrow> real" where
  "web_getCurrentTime h =
     (case audioContext (webAudio h) of None \<Rightarrow> 0 | Some c \<Rightarrow> ctx_currentTime c)"

definition web_resetState :: "hook \<Rightarrow> hook" where
  "web_resetState h =
     (let h1 = stopStream h in h1\<lparr>webAudio := (webAudio h1)\<lparr>originalBuffer := None\<rparr>\<rparr>)"

subsection \<open>useHTML5Audio\<close>

definition stopAudio :: "hook \<Rightarrow> hook" where
  "stopAudio h =
     (case audioRef h of
        None \<Rightarrow> h
      | Some a \<Rightarrow>
          updatePlayingState False
            (h\<lparr>audioRef := Some (a\<lparr>el_paused := True, el_currentTime := 0\<rparr>)\<rparr>))"

definition pauseAudio :: "hook \<Rightarrow> hook" where
  "pauseAudio h =
     updatePlayingState False
       (h\<lparr>audioRef := map_option (\<lambda>a. a\<lparr>el_paused := True\<rparr>) (audioRef h)\<rparr>)"

definition playAudio :: "hook \<Rightarrow> hook" where
  "playAudio h =
     updatePlayingState True
       (h\<lparr>audioRef := map_option (\<lambda>a. a\<lparr>el_paused := False\<rparr>) (audioRef h)\<rparr>)"

definition rewindAudio :: "real \<Rightarrow> bool \<Rightarrow> hook \<Rightarrow> hook" where
  "rewindAudio seconds wasPlaying h =
     (case audioRef h of
        None \<Rightarrow> h
      | Some a \<Rightarrow>
          (let h1 = h\<lparr>audioRef := Some (a\<lparr>el_currentTime := max 0 (el_currentTime a - seconds)\<rparr>)\<rparr>
           in if wasPlaying then playAudio h1 else h1))"

text \<open>
  \<open>setupAudioListeners(onCanPlay, onEnded)\<close>, as \<open>streamAudio\<close> calls it: \<open>onCanPlay\<close>
  sets the ready flag, \<open>onEnded\<close> calls \<open>stop\<close>. The second listener is not removed when
  it has run.
\<close>

definition setupAudioListeners :: "bool \<Rightarrow> hook \<Rightarrow> hook" where
  "setupAudioListeners transitioned h =
     h\<lparr>audioRef := map_option
          (\<lambda>a. a\<lparr>el_canplay_once := True, el_onended := el_onended a @ [transitioned]\<rparr>)
          (audioRef h)\<rparr>"

definition setAudioSource :: "audio_buffer \<Rightarrow> hook \<Rightarrow> hook" where
  "setAudioSource wav h =
     h\<lparr>audioRef := map_option (\<lambda>a. a\<lparr>el_src := Some wav\<rparr>) (audioRef h)\<rparr>"

definition html5_setCurrentTime :: "real \<Rightarrow> hook \<Rightarrow> hook" where
  "html5_setCurrentTime t h =
     h\<lparr>audioRef := map_option (\<lambda>a. a\<lparr>el_currentTime := t\<rparr>) (audioRef h)\<rparr>"

definition html5_getCurrentTime :: "hook \<Rightarrow> real" where
  "html5_getCurrentTime h = (case audioRef h of None \<Rightarrow> 0 | Some a \<Rightarrow> el_currentTime a)"

subsection \<open>The controls of useStreamAudio\<close>

definition stop :: "hook \<Rightarrow> hook" where
  "stop h =
     updatePlayingState False (if isAudioTransitioned h then stopAudio h else stopStream h)"

text \<open>
  \<open>stop\<close> reads the \<open>isAudioTransitioned\<close> of the render that defined it. The controls
  of this subsection are those of the latest render; an \<open>ended\<close> listener calls the
  \<open>stop\<close> of the render in which its \<open>streamAudio\<close> was defined, whatever the flag has
  become since.
\<close>

definition stop_of_render :: "bool \<Rightarrow> hook \<Rightarrow> hook" where
  "stop_of_render transitioned h =
     updatePlayingState False (if transitioned then stopAudio h else stopStream h)"

definition play :: "hook \<Rightarrow> hook" where
  "play h = (if isAudioTransitioned h then playAudio h else playStream h)"

definition pause :: "hook \<Rightarrow> hook" where
  "pause h = (if isAudioTransitioned h then pauseAudio h else pauseStream h)"

definition rewind :: "real \<Rightarrow> hook \<Rightarrow> hook" where
  "rewind seconds h =
     (if isAudioTransitioned h then rewindAudio seconds (isPlaying h) h else h)"

definition resetState :: "hook \<Rightarrow> hook" where
  "resetState h =
     web_resetState ((stop h)\<lparr>isAudioReady := False, isAudioTransitioned := False\<rparr>)"

section \<open>Rendering and the transition effect\<close>

text \<open>
  The body of the effect that hands playback over to the audio element. It reads the
  state of the render it belongs to: \<open>currentTime\<close>, \<open>isPlaying\<close>, \<open>isAudioReady\<close>.
\<close>

definition transition_effect :: "options \<Rightarrow> hook \<Rightarrow> hook" where
  "transition_effect opts h =
     (if \<not> enableTransition opts then h
      else if isAudioReady h then
        (let currentPosition = currentTime h;
             h1 = html5_setCurrentTime currentPosition h;
             h2 = h1\<lparr>isAudioTransitioned := True\<rparr>
         in if isPlaying h then playAudio (stopStream h2) else h2)
      else h)"

text \<open>
  React renders the hook again when a handler has changed its state. The dependency list
  of the effect, \<open>[isAudioReady, enableTransition, currentTime, isPlaying, html5Audio,
  webAudio, onAudioReady]\<close>, holds the objects returned by the two inner hooks, which are
  new objects in every render: the effect runs after every render. What the effect sets
  is state again, so the hook is rendered until the effect changes no state. State set
  twice in one handler gives one render with the last value. Renders caused by the
  component that uses the hook are not part of the model.
\<close>

definition react_state :: "hook \<Rightarrow> bool \<times> bool \<times> bool \<times> real \<times> real \<times> bool" where
  "react_state h =
     (isPlaying h, isAudioReady h, isAudioTransitioned h, currentTime h, duration h,
      isAudioSuspended h)"

text \<open>
  \<open>render_loop\<close> gives the state after the renders and the number of times the sequence
  of the effect (seek, set the flag, switch the engines) was executed in them.
\<close>

function render_loop :: "options \<Rightarrow> hook \<Rightarrow> hook \<times> nat" where
  "render_loop opts h =
     (let h' = transition_effect opts h;
          n = (if enableTransition opts \<and> isAudioReady h then 1 else 0)
      in if react_state h' = react_state h then (h', n)
         else (fst (render_loop opts h'), n + snd (render_loop opts h')))"
  by pat_completeness auto
termination
  by (relation "measure (\<lambda>(opts, h). if isAudioTransitioned h then 0 else 1)")
     (auto simp add: transition_effect_def react_state_def Let_def playAudio_def stopStream_def
        updatePlayingState_def html5_setCurrentTime_def split: if_splits)

definition render :: "options \<Rightarrow> hook \<Rightarrow> hook" where
  "render opts h = fst (render_loop opts h)"

definition render_runs :: "options \<Rightarrow> hook \<Rightarrow> nat" where
  "render_runs opts h = snd (render_loop opts h)"

definition rerender :: "options \<Rightarrow> hook \<Rightarrow> hook \<Rightarrow> hook" where
  "rerender opts before after =
     (if react_state after \<noteq> react_state before then render opts after else after)"

text \<open>The interval of the time tracker exists only while \<open>isPlaying\<close> holds.\<close>

definition tick :: "hook \<Rightarrow> hook" where
  "tick h =
     (if isPlaying h then
        h\<lparr>currentTime :=
             (if isAudioTransitioned h then html5_getCurrentTime h else web_getCurrentTime h)\<rparr>
      else h)"

text \<open>
  Time passes on the devices: the clock of a running audio context and the position of a
  playing audio element advance.
\<close>

definition elapse :: "real \<Rightarrow> hook \<Rightarrow> hook" where
  "elapse dt h =
     h\<lparr>webAudio := (webAudio h)\<lparr>audioContext :=
          map_option (\<lambda>c. if ctx_running c then c\<lparr>ctx_currentTime := ctx_currentTime c + dt\<rparr> else c)
            (audioContext (webAudio h))\<rparr>,
       audioRef :=
          map_option (\<lambda>a. if el_paused a then a else a\<lparr>el_currentTime := el_currentTime a + dt\<rparr>)
            (audioRef h)\<rparr>"

text \<open>
  The oldest source node that carries an \<open>ended\<close> listener has finished or has been
  stopped: its listener runs, once.
\<close>

definition source_ended :: "hook \<Rightarrow> hook" where
  "source_ended h =
     (case endedListeners h of
        [] \<Rightarrow> h
      | (n, transitioned) # listeners \<Rightarrow>
          stop_of_render transitioned (h\<lparr>endedListeners := listeners\<rparr>))"

text \<open>
  The audio element has played its resource to the end: the element pauses and its
  \<open>ended\<close> listeners run in the order of their registration.
\<close>

definition element_ended :: "hook \<Rightarrow> hook" where
  "element_ended h =
     (case audioRef h of
        None \<Rightarrow> h
      | Some a \<Rightarrow>
          foldl (\<lambda>k transitioned. stop_of_render transitioned k)
            (h\<lparr>audioRef := Some (a\<lparr>el_paused := True\<rparr>)\<rparr>) (el_onended a))"

text \<open>
  What can happen while a \<open>streamAudio\<close> call waits for its next read, and at any other
  time: a tick of the time tracker, time passing on the devices, the four controls,
  called by the user from the latest render, and the events \<open>statechange\<close> of the audio
  context, \<open>ended\<close> of a source node and \<open>ended\<close> of the audio element. Each is followed
  by React's renders. When the devices fire their events is for the one who writes down
  a run to say: a \<open>statechange\<close> after the context was suspended or resumed, an \<open>ended\<close>
  after the node or the element has played to its end or, for a node, was stopped.
\<close>

datatype control =
  Tick
| Elapse real
| Stop
| Play
| Pause
| Rewind real
| StateChange
| SourceEnded
| ElementEnded

fun control_handler :: "control \<Rightarrow> hook \<Rightarrow> hook" where
  "control_handler Tick h = tick h"
| "control_handler (Elapse dt) h = elapse dt h"
| "control_handler Stop h = stop h"
| "control_handler Play h = play h"
| "control_handler Pause h = pause h"
| "control_handler (Rewind seconds) h = rewind seconds h"
| "control_handler StateChange h = handleStateChange h"
| "control_handler SourceEnded h = source_ended h"
| "control_handler ElementEnded h = element_ended h"

definition control_step :: "options \<Rightarrow> control \<Rightarrow> hook \<Rightarrow> hook" where
  "control_step opts c h = rerender opts h (control_handler c h)"

fun during_wait :: "options \<Rightarrow> control list \<Rightarrow> hook \<Rightarrow> hook" where
  "during_wait opts [] h = h"
| "during_wait opts (c # cs) h = during_wait opts cs (control_step opts c h)"

section \<open>streamAudio: decoding, scheduling, accumulating\<close>

text \<open>
  One pass of the loop body up to the samples and the new leftover: the incoming bytes are
  appended to the leftover, the longest prefix whose length is a multiple of 4 is viewed
  as samples, and the rest is the next leftover.
\<close>

definition decode :: "byte list \<Rightarrow> byte list \<Rightarrow> sample list \<times> byte list" where
  "decode leftover_bytes val =
     (let data = leftover_bytes @ val;
          len = (length data div 4) * 4;
          remainder = length data mod 4
      in (Float32Array_view data 0 (len div 4), Uint8Array_view data len remainder))"

text \<open>
  The local variables of one \<open>streamAudio\<close> call, and with them the
  \<open>isAudioTransitioned\<close> of the render that defined the function, which is what its
  \<open>stop\<close> reads, and the exception with which the call has rejected, if it has.
\<close>

record locals =
  nextStartTime :: real
  totalDuration :: real
  allBuffers :: "sample list list"
  leftover :: "byte list"
  source :: "source_node option"
  renderTransitioned :: bool
  thrown :: "error option"

definition createAndScheduleAudioSource ::
    "audio_buffer \<Rightarrow> real \<Rightarrow> hook \<Rightarrow> source_node \<times> hook" where
  "createAndScheduleAudioSource audioBuffer startTime h =
     (let src = \<lparr>node_buffer = audioBuffer, node_startTime = startTime\<rparr>
      in (src, h\<lparr>webAudio := (webAudio h)\<lparr>activeSources := activeSources (webAudio h) @ [src]\<rparr>\<rparr>))"

definition process_chunk :: "audio_context \<Rightarrow> byte list \<Rightarrow> locals \<times> hook \<Rightarrow> locals \<times> hook" where
  "process_chunk ctx val s =
     (let ls = fst s; h = snd s;
          (buffer, rest) = decode (leftover ls) val;
          ls1 = ls\<lparr>leftover := rest\<rparr>
      in if length buffer \<noteq> 0 then
           (case createBuffer (length buffer) (ctx_sampleRate ctx) of
              Inl e \<Rightarrow> (ls1\<lparr>thrown := Some e\<rparr>, h)
            | Inr created \<Rightarrow>
                (let audioBuffer = copyToChannel buffer created;
                     ls2 = ls1\<lparr>allBuffers := allBuffers ls1 @ [buffer],
                               totalDuration := totalDuration ls1 + ab_duration audioBuffer\<rparr>;
                     (src, h1) = createAndScheduleAudioSource audioBuffer (nextStartTime ls2) h
                 in (ls2\<lparr>source := Some src,
                          nextStartTime := nextStartTime ls2 + ab_duration audioBuffer\<rparr>, h1)))
         else (ls1, h))"

text \<open>
  \<open>source?.addEventListener('ended', () => { stop(); onEnded?.() }, { once: true })\<close> on
  the node scheduled last, if there is one.
\<close>

definition addEndedListener :: "locals \<Rightarrow> hook \<Rightarrow> hook" where
  "addEndedListener ls h =
     (case source ls of
        None \<Rightarrow> h
      | Some n \<Rightarrow> h\<lparr>endedListeners := endedListeners h @ [(n, renderTransitioned ls)]\<rparr>)"

text \<open>
  When the stream is done and the transition is enabled, all chunks are copied into one
  buffer, the duration is published, the buffer is encoded as WAV and given to the audio
  element together with its listeners, and the last node gets its \<open>ended\<close> listener. The
  call rejects before any of this if no sample was decoded, since \<open>createBuffer\<close>
  throws then, and if the audio context is gone. With the transition disabled only the
  \<open>ended\<close> listener is added.
\<close>

definition combine_buffers :: "sample list list \<Rightarrow> sample list" where
  "combine_buffers bufs =
     (let totalLength = foldl (\<lambda>acc buf. acc + length buf) 0 bufs;
          completeBuffer = replicate totalLength 0
      in fst (foldl (\<lambda>(complete, offset) buf.
                      (typed_array_set buf offset complete, offset + length buf))
                (completeBuffer, 0) bufs))"

definition finalize :: "audio_context \<Rightarrow> locals \<Rightarrow> hook \<Rightarrow> error + hook" where
  "finalize ctx ls h =
     (let completeBuffer = combine_buffers (allBuffers ls)
      in case createBuffer (length completeBuffer) (ctx_sampleRate ctx) of
           Inl e \<Rightarrow> Inl e
         | Inr created \<Rightarrow>
             (let complete = copyToChannel completeBuffer created;
                  h1 = h\<lparr>duration := ab_duration complete\<rparr>;
                  h2 = h1\<lparr>wavCalls := wavCalls h1 @ [complete]\<rparr>;
                  h3 = (case audioRef h2 of
                          None \<Rightarrow> h2
                        | Some a \<Rightarrow>
                            setupAudioListeners (renderTransitioned ls)
                              (setAudioSource complete h2));
                  h4 = h3\<lparr>webAudio := (webAudio h3)\<lparr>originalBuffer := Some complete\<rparr>\<rparr>
              in Inr (addEndedListener ls h4)))"

definition on_done :: "options \<Rightarrow> locals \<times> hook \<Rightarrow> locals \<times> hook" where
  "on_done opts s =
     (if enableTransition opts then
        (case audioContext (webAudio (snd s)) of
           None \<Rightarrow> ((fst s)\<lparr>thrown := Some TypeError\<rparr>, snd s)
         | Some ctx \<Rightarrow>
             (case finalize ctx (fst s) (snd s) of
                Inl e \<Rightarrow> ((fst s)\<lparr>thrown := Some e\<rparr>, snd s)
              | Inr h \<Rightarrow> (fst s, h)))
      else (fst s, addEndedListener (fst s) (snd s)))"

text \<open>
  The stream is the list of its chunks, each with what happened while its read was
  awaited; \<open>final\<close> is what happened while the read that reports \<open>done\<close> was awaited.
  Another \<open>streamAudio\<close> call and the \<open>canplay\<close> event do not occur while a stream
  is read. \<open>stream_loop\<close> is the \<open>while\<close> loop entered with the chunk \<open>val\<close> in hand:
  the loop stops when the audio context is gone or playback was stopped, otherwise it
  decodes and schedules the chunk and reads again.
\<close>

fun stream_loop ::
    "options \<Rightarrow> byte list \<Rightarrow> (control list \<times> byte list) list \<Rightarrow> control list \<Rightarrow>
       locals \<times> hook \<Rightarrow> locals \<times> hook" where
  "stream_loop opts val rest final s =
     (case audioContext (webAudio (snd s)) of
        None \<Rightarrow> s
      | Some ctx \<Rightarrow>
          if \<not> isAudioPlaying (webAudio (snd s)) then s
          else
            (let s1 = process_chunk ctx val s
             in case thrown (fst s1) of
                  Some e \<Rightarrow> s1
                | None \<Rightarrow>
                    (case rest of
                       [] \<Rightarrow> on_done opts (fst s1, during_wait opts final (snd s1))
                     | (cs, nxt) # rest' \<Rightarrow>
                         stream_loop opts nxt rest' final
                           (fst s1, during_wait opts cs (snd s1)))))"

text \<open>
  \<open>streamAudio\<close> is taken from the latest render: the \<open>stop\<close> which it calls in
  \<open>resetState\<close> and hands to the \<open>ended\<close> listeners reads the \<open>isAudioTransitioned\<close> of
  the state in which it is called.
\<close>

definition streamAudio_run ::
    "options \<Rightarrow> (control list \<times> byte list) list \<Rightarrow> control list \<Rightarrow> hook \<Rightarrow> locals \<times> hook" where
  "streamAudio_run opts stream final h =
     (let h1 = resetState h;
          h2 = h1\<lparr>webAudio := (webAudio h1)\<lparr>isAudioPlaying := True\<rparr>\<rparr>;
          h3 = h2\<lparr>currentTime := 0\<rparr>;
          ls = \<lparr>nextStartTime = web_getCurrentTime h3, totalDuration = 0, allBuffers = [],
                leftover = [], source = None, renderTransitioned = isAudioTransitioned h,
                thrown = None\<rparr>
      in case stream of
           [] \<Rightarrow> (ls, updatePlayingState True (during_wait opts final h3))
         | (cs, val) # rest \<Rightarrow>
             stream_loop opts val rest final (ls, updatePlayingState True (during_wait opts cs h3)))"

definition streamAudio ::
    "options \<Rightarrow> (control list \<times> byte list) list \<Rightarrow> control list \<Rightarrow> hook \<Rightarrow> hook" where
  "streamAudio opts stream final h = snd (streamAudio_run opts stream final h)"

text \<open>
  A stream is read without interruption if \<open>stop\<close> is not called while it is read,
  neither by the user nor by an \<open>ended\<close> listener.
\<close>

definition stop_free :: "control list \<Rightarrow> bool" where
  "stop_free cs \<longleftrightarrow> Stop \<notin> set cs \<and> SourceEnded \<notin> set cs \<and> ElementEnded \<notin> set cs"

definition uninterrupted :: "(control list \<times> byte list) list \<Rightarrow> control list \<Rightarrow> bool" where
  "uninterrupted stream final \<longleftrightarrow> stop_free (concat (map fst stream) @ final)"

section \<open>Events\<close>

text \<open>The audio element fires \<open>canplay\<close>: the one-time listener, if any, sets the ready flag.\<close>

definition canplay :: "hook \<Rightarrow> hook" where
  "canplay h =
     (case audioRef h of
        None \<Rightarrow> h
      | Some a \<Rightarrow>
          if el_canplay_once a
          then (h\<lparr>audioRef := Some (a\<lparr>el_canplay_once := False\<rparr>)\<rparr>)\<lparr>isAudioReady := True\<rparr>
          else h)"

text \<open>
  What can happen to a mounted hook: a \<open>streamAudio\<close> call that runs until its stream
  is done or it is stopped, the \<open>canplay\<close> event, and what can also happen while a stream
  is read.
\<close>

datatype event =
  StreamAudio "(control list \<times> byte list) list" "control list"
| CanPlay
| Control control

fun handler :: "options \<Rightarrow> event \<Rightarrow> hook \<Rightarrow> hook" where
  "handler opts (StreamAudio stream final) h = streamAudio opts stream final h"
| "handler opts CanPlay h = canplay h"
| "handler opts (Control c) h = control_handler c h"

definition step :: "options \<Rightarrow> event \<Rightarrow> hook \<Rightarrow> hook" where
  "step opts e h = rerender opts h (handler opts e h)"

fun run :: "options \<Rightarrow> hook \<Rightarrow> event list \<Rightarrow> hook" where
  "run opts h [] = h"
| "run opts h (e # es) = run opts (step opts e h) es"

text \<open>How often the hand-over sequence of the effect is executed after the events of a run.\<close>

definition handoff_runs :: "options \<Rightarrow> event \<Rightarrow> hook \<Rightarrow> nat" where
  "handoff_runs opts e h =
     (let h1 = handler opts e h
      in if react_state h1 \<noteq> react_state h then render_runs opts h1 else 0)"


text \<open>The transition state of the specification, read off the two flags.\<close>

datatype transition_state = Streaming | Ready | Transitioned

definition transitionState :: "hook \<Rightarrow> transition_state" where
  "transitionState h =
     (if isAudioTransitioned h then Transitioned
      else if isAudioReady h then Ready else Streaming)"

text \<open>How often a run enters \<open>Transitioned\<close> from another state.\<close>

fun entries :: "options \<Rightarrow> hook \<Rightarrow> event list \<Rightarrow> nat" where
  "entries opts h [] = 0"
| "entries opts h (e # es) =
     (if transitionState h \<noteq> Transitioned \<and> transitionState (step opts e h) = Transitioned
      then 1 else 0) + entries opts (step opts e h) es"

fun is_StreamAudio :: "event \<Rightarrow> bool" where
  "is_StreamAudio (StreamAudio stream final) = True"
| "is_StreamAudio e = False"

section \<open>Example inputs\<close>

text \<open>The default options of the hook, and three short chunks of 3, 5 and 8 bytes.\<close>

definition default_options :: options where
  "default_options = \<lparr>sampleRate = 24000, enableTransition = True\<rparr>"

definition chunk3 :: "byte list" where
  "chunk3 = [1, 2, 3]"

definition chunk5 :: "byte list" where
  "chunk5 = [4, 5, 6, 7, 8]"

definition chunk8 :: "byte list" where
  "chunk8 = [0, 0, 128, 63, 0, 0, 0, 64]"

text \<open>
  Three chunks: the first arrives at once; while the second is awaited 100 ms pass, the
  time tracker ticks and the user pauses; a quarter of a second later the user resumes,
  and the third chunk arrives.
\<close>

definition three_chunks :: "(control list \<times> byte list) list" where
  "three_chunks =
     [([], chunk8), ([Elapse (1 / 10), Tick, Pause, StateChange], chunk3),
      ([Elapse (1 / 4), Play, StateChange], chunk5)]"

text \<open>The same three chunks, all arriving at once.\<close>

definition three_chunks_at_once :: "(control list \<times> byte list) list" where
  "three_chunks_at_once = [([], chunk8), ([], chunk3), ([], chunk5)]"

text \<open>One second of silence at 24000 samples per second: its bytes and its samples.\<close>

definition one_second :: "byte list" where
  "one_second = replicate 96000 0"

definition silence :: "sample list" where
  "silence = replicate 24000 0"

definition silence_buffer :: audio_buffer where
  "silence_buffer = \<lparr>ab_channel = silence, ab_sampleRate = 24000\<rparr>"

definition silence_node :: source_node where
  "silence_node = \<lparr>node_buffer = silence_buffer, node_startTime = 1 / 2\<rparr>"

text \<open>
  A session. The hook has been mounted for half a second when \<open>streamAudio\<close> is called.
  The second of silence arrives at once, as one chunk, and starts to play. 100 ms later
  the time tracker ticks, and after another 50 ms the stream is done and the audio
  element reports \<open>canplay\<close>.
\<close>

definition silence_stream :: "(control list \<times> byte list) list" where
  "silence_stream = [([], one_second)]"

definition streaming_session :: "event list" where
  "streaming_session =
     [Control (Elapse (1 / 2)),
      StreamAudio silence_stream [Elapse (1 / 10), Tick, Elapse (1 / 20)]]"

definition streamed :: hook where
  "streamed = run default_options (initial default_options) streaming_session"

definition session :: "event list" where
  "session = streaming_session @ [CanPlay]"

text \<open>
  The hand-over has stopped the node that was playing, so its \<open>ended\<close> listener runs.
  After 50 ms the user calls \<open>play\<close>; 100 ms later the time tracker ticks, and another
  50 ms pass.
\<close>

definition after_handoff :: "event list" where
  "after_handoff =
     [Control SourceEnded, Control (Elapse (1 / 20)), Control Play,
      Control (Elapse (1 / 10)), Control Tick, Control (Elapse (1 / 20))]"

text \<open>
  The state of that session after the hand-over, by the clock of the audio context, the
  published \<open>currentTime\<close>, the position of the audio element, the play-state, whether
  the element is paused, and the source nodes whose \<open>ended\<close> listener is still to run.
\<close>

definition handed_over ::
    "real \<Rightarrow> real \<Rightarrow> real \<Rightarrow> bool \<Rightarrow> bool \<Rightarrow> (source_node \<times> bool) list \<Rightarrow> hook" where
  "handed_over clock published position playing paused listeners =
     \<lparr>isPlaying = playing, isAudioReady = True, isAudioTransitioned = True,
      currentTime = published, duration = 1, isAudioSuspended = False,
      webAudio = \<lparr>audioContext = Some \<lparr>ctx_sampleRate = 24000, ctx_currentTime = clock,
                                        ctx_running = True\<rparr>,
                  originalBuffer = Some silence_buffer, activeSources = [],
                  isAudioPlaying = False\<rparr>,
      audioRef = Some \<lparr>el_src = Some silence_buffer, el_currentTime = position,
                       el_paused = paused, el_canplay_once = False, el_onended = [False]\<rparr>,
      endedListeners = listeners, wavCalls = [silence_buffer]\<rparr>"

section \<open>Invariants of the streaming loop\<close>

text \<open>
  What a \<open>streamAudio\<close> call relies on between its reads, and what no tick, passing of
  time, \<open>play\<close>, \<open>pause\<close>, \<open>rewind\<close> or \<open>statechange\<close> changes.
\<close>

definition session_view ::
    "hook \<Rightarrow> (bool \<times> source_node list \<times> audio_buffer option \<times> nat option) \<times>
             (audio_buffer list \<times> real \<times> bool \<times> bool) \<times> (audio_buffer option \<times> bool) option" where
  "session_view h =
     ((isAudioPlaying (webAudio h), activeSources (webAudio h), originalBuffer (webAudio h),
       map_option ctx_sampleRate (audioContext (webAudio h))),
      (wavCalls h, duration h, isAudioReady h, isAudioTransitioned h),
      map_option (\<lambda>a. (el_src a, el_canplay_once a)) (audioRef h))"

text \<open>
  \<open>contiguous t srcs\<close>: the nodes start back to back from time \<open>t\<close>, each one when the
  one before it ends.
\<close>

fun contiguous :: "real \<Rightarrow> source_node list \<Rightarrow> bool" where
  "contiguous t [] = True"
| "contiguous t (n # ns) =
     (node_startTime n = t \<and> contiguous (t + ab_duration (node_buffer n)) ns)"

definition durations :: "source_node list \<Rightarrow> real list" where
  "durations srcs = map (\<lambda>n. ab_duration (node_buffer n)) srcs"

definition schedule_inv :: "real \<Rightarrow> nat \<Rightarrow> locals \<times> hook \<Rightarrow> bool" where
  "schedule_inv t0 r s \<longleftrightarrow>
     contiguous t0 (activeSources (webAudio (snd s)))
     \<and> nextStartTime (fst s) = t0 + sum_list (durations (activeSources (webAudio (snd s))))
     \<and> map node_buffer (activeSources (webAudio (snd s)))
         = map (\<lambda>b. \<lparr>ab_channel = b, ab_sampleRate = r\<rparr>) (allBuffers (fst s))
     \<and> [] \<notin> set (allBuffers (fst s))"

section \<open>Decoding\<close>

lemma bytes_of_float32_of_bytes:
  "bytes_of_float32 (float32_of_bytes b0 b1 b2 b3) = [b0, b1, b2, b3]"
  unfolding bytes_of_float32_def float32_of_bytes_def
  apply simp
  apply (intro conjI bit_word_eqI)
     apply (auto simp add: bit_simps dest: bit_imp_le_length)
  done

lemma length_float32_elements: "length (float32_elements bs) = length bs div 4"
  by (induction bs rule: float32_elements.induct) simp_all

lemma bytes_float32_elements:
  "concat (map bytes_of_float32 (float32_elements bs)) = take (length bs div 4 * 4) bs"
  by (induction bs rule: float32_elements.induct) (simp_all add: bytes_of_float32_of_bytes take_Cons')

lemma Float32Array_view_whole:
  "Float32Array_view data 0 (length data div 4 * 4 div 4) = float32_elements data"
  by (simp add: Float32Array_view_def length_float32_elements)

lemma Uint8Array_view_rest:
  "Uint8Array_view data (length data div 4 * 4) (length data mod 4) =
     drop (length data div 4 * 4) data"
  by (simp add: Uint8Array_view_def minus_div_mult_eq_mod)

lemma decode_eq:
  "decode lo v = (float32_elements (lo @ v), drop (length (lo @ v) div 4 * 4) (lo @ v))"
  unfolding decode_def Let_def Float32Array_view_whole Uint8Array_view_rest ..

lemma length_fst_decode: "length (fst (decode lo v)) = (length lo + length v) div 4"
  by (simp add: decode_eq length_float32_elements)

lemma length_snd_decode: "length (snd (decode lo v)) = (length lo + length v) mod 4"
proof -
  have "length (drop (length (lo @ v) div 4 * 4) (lo @ v)) = length (lo @ v) mod 4"
    by (simp only: length_drop minus_div_mult_eq_mod)
  then show ?thesis by (simp add: decode_eq)
qed

lemma decode_bytes:
  "concat (map bytes_of_float32 (fst (decode lo v))) @ snd (decode lo v) = lo @ v"
proof -
  have "take (length (lo @ v) div 4 * 4) (lo @ v) @ drop (length (lo @ v) div 4 * 4) (lo @ v)
          = lo @ v"
    by (rule append_take_drop_id)
  then show ?thesis
    by (simp only: decode_eq fst_conv snd_conv bytes_float32_elements)
qed

lemma decode_small: "length lo + length v < 4 \<Longrightarrow> decode lo v = ([], lo @ v)"
proof -
  assume small: "length lo + length v < 4"
  then have d: "length (lo @ v) div 4 = 0" by simp
  have "float32_elements (lo @ v) = []"
    using length_float32_elements [of "lo @ v"] d by simp
  then show ?thesis
    by (simp only: decode_eq d) simp
qed

text \<open>
  C7. A decode step that has fewer than 4 bytes in total (leftover plus incoming) yields no
  sample and keeps all bytes as leftover. The leftover after any step has at most 3 bytes,
  and the bytes consumed by a step are four times the number of samples it yields. The
  loop body stores exactly this leftover. For chunks of 3 and then 5 bytes the first step
  yields no sample and 3 leftover bytes, the second 2 samples and no leftover.
\<close>

theorem decode_alignment:
  "(length lo + length v < 4 \<longrightarrow> decode lo v = ([], lo @ v))
   \<and> length (snd (decode lo v)) \<le> 3
   \<and> length lo + length v = 4 * length (fst (decode lo v)) + length (snd (decode lo v))
   \<and> leftover (fst (process_chunk ctx v s)) = snd (decode (leftover (fst s)) v)
   \<and> (length c3 = 3 \<and> length c5 = 5 \<longrightarrow>
        fst (decode [] c3) = [] \<and> snd (decode [] c3) = c3 \<and> length (snd (decode [] c3)) = 3
        \<and> length (fst (decode c3 c5)) = 2 \<and> snd (decode c3 c5) = [])"
proof (intro conjI impI)
  show "decode lo v = ([], lo @ v)" if "length lo + length v < 4"
    using that by (rule decode_small)
  have "(length lo + length v) mod 4 < 4" by simp
  then show "length (snd (decode lo v)) \<le> 3"
    by (simp add: length_snd_decode)
  show "length lo + length v = 4 * length (fst (decode lo v)) + length (snd (decode lo v))"
    by (simp add: length_fst_decode length_snd_decode)
  show "leftover (fst (process_chunk ctx v s)) = snd (decode (leftover (fst s)) v)"
    by (simp add: process_chunk_def Let_def createAndScheduleAudioSource_def createBuffer_def
        split: prod.split)
next
  assume c: "length c3 = 3 \<and> length c5 = 5"
  then have first: "decode [] c3 = ([], c3)"
    using decode_small [of "[]" c3] by simp
  show "fst (decode [] c3) = []" "snd (decode [] c3) = c3" "length (snd (decode [] c3)) = 3"
    using c by (simp_all add: first)
  show "length (fst (decode c3 c5)) = 2"
    using c by (simp add: length_fst_decode)
  have "length (snd (decode c3 c5)) = 0"
    using c by (simp add: length_snd_decode)
  then show "snd (decode c3 c5) = []" by simp
qed

theorem decode_alignment_witness:
  "length ([] :: byte list) + length chunk3 < 4 \<and> length chunk3 = 3 \<and> length chunk5 = 5
   \<and> decode [] chunk3 = ([], chunk3)
   \<and> length (fst (decode chunk3 chunk5)) = 2 \<and> snd (decode chunk3 chunk5) = []"
proof -
  have small: "length ([] :: byte list) + length chunk3 < 4"
    by (simp add: chunk3_def)
  have lens: "length chunk3 = 3 \<and> length chunk5 = 5"
    by (simp add: chunk3_def chunk5_def)
  note inst = decode_alignment [of "[]" chunk3
        "\<lparr>ctx_sampleRate = 24000, ctx_currentTime = 0, ctx_running = True\<rparr>"
        "streamAudio_run default_options [] [] (initial default_options)" chunk3 chunk5]
  note first = inst [THEN conjunct1, THEN mp, OF small]
  note second = inst [THEN conjunct2, THEN conjunct2, THEN conjunct2, THEN conjunct2,
      THEN mp, OF lens, THEN conjunct2, THEN conjunct2, THEN conjunct2]
  from small lens first second show ?thesis
    by simp
qed

section \<open>What happens between two reads\<close>

declare render_loop.simps [simp del]

lemma transition_effect_not_ready: "\<not> isAudioReady h \<Longrightarrow> transition_effect opts h = h"
  by (simp add: transition_effect_def)

lemma transition_effect_idem:
  "transition_effect opts (transition_effect opts h) = transition_effect opts h"
  by (cases "audioRef h")
     (simp_all add: transition_effect_def Let_def playAudio_def stopStream_def
        updatePlayingState_def html5_setCurrentTime_def)

lemma react_state_transition_effect:
  "react_state (transition_effect opts h) = react_state h \<longleftrightarrow>
     \<not> (enableTransition opts \<and> isAudioReady h \<and> \<not> isAudioTransitioned h)"
  by (auto simp add: transition_effect_def react_state_def Let_def playAudio_def stopStream_def
      updatePlayingState_def html5_setCurrentTime_def)

lemma isAudioTransitioned_after_effect:
  "enableTransition opts \<Longrightarrow> isAudioReady h \<Longrightarrow>
     isAudioTransitioned (transition_effect opts h) \<and> isAudioReady (transition_effect opts h)"
  by (simp add: transition_effect_def Let_def playAudio_def stopStream_def
      updatePlayingState_def html5_setCurrentTime_def)

text \<open>
  The renders after a handler come to rest after one run of the effect, or after two if the
  first run has set the transitioned flag; the second run changes nothing.
\<close>

lemma render_loop_eq:
  "render_loop opts h =
     (transition_effect opts h,
      if enableTransition opts \<and> isAudioReady h
      then (if isAudioTransitioned h then 1 else 2) else 0)"
proof (cases "enableTransition opts \<and> isAudioReady h \<and> \<not> isAudioTransitioned h")
  case False
  then have "react_state (transition_effect opts h) = react_state h"
    by (simp add: react_state_transition_effect)
  then show ?thesis
    using False by (subst render_loop.simps) (auto simp add: Let_def)
next
  case True
  let ?h = "transition_effect opts h"
  from True have changed: "react_state ?h \<noteq> react_state h"
    by (simp add: react_state_transition_effect)
  from True have after: "enableTransition opts" "isAudioReady ?h" "isAudioTransitioned ?h"
    using isAudioTransitioned_after_effect [of opts h] by simp_all
  then have "react_state (transition_effect opts ?h) = react_state ?h"
    by (simp add: react_state_transition_effect)
  then have second: "render_loop opts ?h = (?h, 1)"
    using after by (subst render_loop.simps) (simp add: Let_def transition_effect_idem)
  show ?thesis
    using True changed by (subst render_loop.simps) (simp add: Let_def second)
qed

lemma render_eq: "render opts h = transition_effect opts h"
  by (simp add: render_def render_loop_eq)

lemma render_runs_eq:
  "render_runs opts h =
     (if enableTransition opts \<and> isAudioReady h
      then (if isAudioTransitioned h then 1 else 2) else 0)"
  by (simp add: render_runs_def render_loop_eq)

lemma rerender_not_ready: "\<not> isAudioReady after \<Longrightarrow> rerender opts before after = after"
  by (simp add: rerender_def render_eq transition_effect_not_ready)

lemma rewind_eq:
  "rewind seconds h =
     (if isAudioTransitioned h then
        h\<lparr>audioRef := map_option
             (\<lambda>a. a\<lparr>el_currentTime := max 0 (el_currentTime a - seconds),
                    el_paused := (el_paused a \<and> \<not> isPlaying h)\<rparr>) (audioRef h)\<rparr>
      else h)"
  by (cases h) (auto simp add: rewind_def rewindAudio_def playAudio_def updatePlayingState_def
        Let_def split: option.split)

lemma stop_of_render_latest: "stop h = stop_of_render (isAudioTransitioned h) h"
  by (simp add: stop_def stop_of_render_def)

text \<open>What the listeners of \<open>ended\<close> leave alone, whichever \<open>stop\<close> they call.\<close>

lemma stop_of_render_keeps:
  "isAudioReady (stop_of_render b h) = isAudioReady h"
  "isAudioTransitioned (stop_of_render b h) = isAudioTransitioned h"
  "currentTime (stop_of_render b h) = currentTime h"
  by (simp_all add: stop_of_render_def stopAudio_def stopStream_def updatePlayingState_def
      split: option.split)

lemma listeners_keep:
  assumes "\<And>b k. f (stop_of_render b k) = f k"
  shows "f (foldl (\<lambda>k b. stop_of_render b k) h bs) = f h"
  by (induction bs arbitrary: h) (simp_all add: assms)

lemma source_ended_keeps:
  "isAudioReady (source_ended h) = isAudioReady h"
  "isAudioTransitioned (source_ended h) = isAudioTransitioned h"
  "currentTime (source_ended h) = currentTime h"
  by (simp_all add: source_ended_def stop_of_render_keeps split: list.split)

lemma element_ended_keeps:
  "isAudioReady (element_ended h) = isAudioReady h"
  "isAudioTransitioned (element_ended h) = isAudioTransitioned h"
  "currentTime (element_ended h) = currentTime h"
  by (simp_all add: element_ended_def listeners_keep [where f = isAudioReady]
      listeners_keep [where f = isAudioTransitioned] listeners_keep [where f = currentTime]
      stop_of_render_keeps split: option.split)

lemma isAudioReady_control_handler: "isAudioReady (control_handler c h) = isAudioReady h"
  by (cases c)
     (simp_all add: source_ended_keeps element_ended_keeps,
      simp_all add: tick_def elapse_def stop_def play_def pause_def rewind_eq
        handleStateChange_def
        stopAudio_def stopStream_def playAudio_def playStream_def pauseAudio_def pauseStream_def
        updatePlayingState_def split: option.split)

lemma control_step_not_ready:
  "\<not> isAudioReady h \<Longrightarrow> control_step opts c h = control_handler c h"
  by (simp add: control_step_def rerender_not_ready isAudioReady_control_handler)

lemma session_view_elapse: "session_view (elapse dt h) = session_view h"
  by (cases "audioContext (webAudio h)"; cases "audioRef h")
     (simp_all add: session_view_def elapse_def)

lemma session_view_control_handler:
  "c \<noteq> Stop \<Longrightarrow> c \<noteq> SourceEnded \<Longrightarrow> c \<noteq> ElementEnded \<Longrightarrow>
     session_view (control_handler c h) = session_view h"
  by (cases c)
     (simp_all add: session_view_elapse,
      simp_all add: session_view_def tick_def play_def pause_def rewind_eq
        handleStateChange_def
        playAudio_def playStream_def pauseAudio_def pauseStream_def
        updatePlayingState_def option.map_comp comp_def split: option.split)

lemma isAudioReady_session_view:
  "session_view h' = session_view h \<Longrightarrow> isAudioReady h' = isAudioReady h"
  by (simp add: session_view_def)

lemma stop_free_Cons:
  "stop_free (c # cs) \<longleftrightarrow>
     c \<noteq> Stop \<and> c \<noteq> SourceEnded \<and> c \<noteq> ElementEnded \<and> stop_free cs"
  by (auto simp add: stop_free_def)

lemma stop_free_append: "stop_free (cs @ ds) \<longleftrightarrow> stop_free cs \<and> stop_free ds"
  by (auto simp add: stop_free_def)

lemma session_view_during_wait:
  "\<not> isAudioReady h \<Longrightarrow> stop_free cs \<Longrightarrow>
     session_view (during_wait opts cs h) = session_view h"
proof (induction cs arbitrary: h)
  case Nil
  show ?case by simp
next
  case (Cons c cs)
  from Cons.prems have c: "c \<noteq> Stop" "c \<noteq> SourceEnded" "c \<noteq> ElementEnded"
    and cs: "stop_free cs"
    by (simp_all add: stop_free_Cons)
  have step: "control_step opts c h = control_handler c h"
    using Cons.prems(1) by (rule control_step_not_ready)
  have view: "session_view (control_handler c h) = session_view h"
    using c by (rule session_view_control_handler)
  have "\<not> isAudioReady (control_handler c h)"
    using Cons.prems(1) by (simp add: isAudioReady_control_handler)
  from Cons.IH [OF this cs] show ?case
    by (simp add: step view)
qed

lemma during_wait_not_ready:
  "\<not> isAudioReady h \<Longrightarrow> \<not> isAudioReady (during_wait opts cs h)"
proof (induction cs arbitrary: h)
  case Nil
  then show ?case by simp
next
  case (Cons c cs)
  have "\<not> isAudioReady (control_step opts c h)"
    using Cons.prems by (simp add: control_step_not_ready isAudioReady_control_handler)
  from Cons.IH [OF this] show ?case by simp
qed
section \<open>The streaming loop\<close>

declare stream_loop.simps [simp del]

lemma createBuffer_length:
  "b \<noteq> [] \<Longrightarrow>
     createBuffer (length b) r = Inr \<lparr>ab_channel = replicate (length b) 0, ab_sampleRate = r\<rparr>"
  "createBuffer (length ([] :: sample list)) r = Inl NotSupportedError"
  by (simp_all add: createBuffer_def)

lemma copyToChannel_createBuffer:
  "copyToChannel b \<lparr>ab_channel = replicate (length b) 0, ab_sampleRate = r\<rparr>
     = \<lparr>ab_channel = b, ab_sampleRate = r\<rparr>"
  by (simp add: copyToChannel_def)

lemma process_chunk_eq:
  "process_chunk ctx v s =
     (let b = fst (decode (leftover (fst s)) v);
          ab = \<lparr>ab_channel = b, ab_sampleRate = ctx_sampleRate ctx\<rparr>;
          n = \<lparr>node_buffer = ab, node_startTime = nextStartTime (fst s)\<rparr>
      in if b = [] then ((fst s)\<lparr>leftover := snd (decode (leftover (fst s)) v)\<rparr>, snd s)
         else ((fst s)\<lparr>leftover := snd (decode (leftover (fst s)) v),
                        allBuffers := allBuffers (fst s) @ [b],
                        totalDuration := totalDuration (fst s) + ab_duration ab,
                        source := Some n,
                        nextStartTime := nextStartTime (fst s) + ab_duration ab\<rparr>,
               (snd s)\<lparr>webAudio := (webAudio (snd s))\<lparr>activeSources :=
                   activeSources (webAudio (snd s)) @ [n]\<rparr>\<rparr>))"
  by (simp add: process_chunk_def Let_def createAndScheduleAudioSource_def
      createBuffer_length copyToChannel_createBuffer split: prod.split)

text \<open>The loop body never throws: it creates a buffer only for at least one sample.\<close>

lemma process_chunk_thrown: "thrown (fst (process_chunk ctx v s)) = thrown (fst s)"
  by (simp add: process_chunk_eq Let_def)

lemma stream_loop_Nil:
  "audioContext (webAudio (snd s)) = Some ctx \<Longrightarrow> isAudioPlaying (webAudio (snd s)) \<Longrightarrow>
     thrown (fst s) = None \<Longrightarrow>
     stream_loop opts v [] final s =
       on_done opts (fst (process_chunk ctx v s),
                     during_wait opts final (snd (process_chunk ctx v s)))"
  by (subst stream_loop.simps) (simp add: Let_def process_chunk_thrown)

lemma stream_loop_Cons:
  "audioContext (webAudio (snd s)) = Some ctx \<Longrightarrow> isAudioPlaying (webAudio (snd s)) \<Longrightarrow>
     thrown (fst s) = None \<Longrightarrow>
     stream_loop opts v ((cs, nxt) # rest) final s =
       stream_loop opts nxt rest final
         (fst (process_chunk ctx v s), during_wait opts cs (snd (process_chunk ctx v s)))"
  by (subst stream_loop.simps) (simp add: Let_def process_chunk_thrown)

lemma process_chunk_leftover:
  "leftover (fst (process_chunk ctx v s)) = snd (decode (leftover (fst s)) v)"
  by (simp add: process_chunk_eq Let_def)

lemma process_chunk_samples:
  "concat (allBuffers (fst (process_chunk ctx v s))) =
     concat (allBuffers (fst s)) @ fst (decode (leftover (fst s)) v)"
  by (simp add: process_chunk_eq Let_def)

lemma process_chunk_audioContext:
  "audioContext (webAudio (snd (process_chunk ctx v s))) = audioContext (webAudio (snd s))"
  by (simp add: process_chunk_eq Let_def)

lemma process_chunk_isAudioPlaying:
  "isAudioPlaying (webAudio (snd (process_chunk ctx v s))) = isAudioPlaying (webAudio (snd s))"
  by (simp add: process_chunk_eq Let_def)

lemma process_chunk_isAudioReady:
  "isAudioReady (snd (process_chunk ctx v s)) = isAudioReady (snd s)"
  by (simp add: process_chunk_eq Let_def)

lemma total_length_foldl:
  "foldl (\<lambda>acc buf. acc + length buf) a bufs = a + length (concat bufs)"
  by (induction bufs arbitrary: a) simp_all

lemma typed_array_set_fill:
  "typed_array_set b (length pre) (pre @ replicate (length b + m) z) = pre @ b @ replicate m z"
  by (simp add: typed_array_set_def replicate_add [symmetric] del: replicate_add)

lemma combine_foldl:
  "foldl (\<lambda>(complete, offset) buf. (typed_array_set buf offset complete, offset + length buf))
      (pre @ replicate (length (concat bufs) + m) z, length pre) bufs
   = (pre @ concat bufs @ replicate m z, length pre + length (concat bufs))"
proof (induction bufs arbitrary: pre)
  case Nil
  then show ?case by simp
next
  case (Cons b bufs)
  have "typed_array_set b (length pre) (pre @ replicate (length (concat (b # bufs)) + m) z)
          = (pre @ b) @ replicate (length (concat bufs) + m) z"
    using typed_array_set_fill [of b pre "length (concat bufs) + m" z] by (simp add: add.assoc)
  then show ?case
    using Cons.IH [of "pre @ b"] by simp
qed

lemma combine_buffers_concat: "combine_buffers bufs = concat bufs"
  using combine_foldl [of "[]" bufs 0 0]
  by (simp add: combine_buffers_def Let_def total_length_foldl)

lemma finalize_throws:
  "concat (allBuffers ls) = [] \<Longrightarrow> finalize ctx ls h = Inl NotSupportedError"
  by (simp add: finalize_def Let_def combine_buffers_concat createBuffer_def)

lemma finalize_eq:
  "concat (allBuffers ls) \<noteq> [] \<Longrightarrow>
     finalize ctx ls h =
       (let complete = \<lparr>ab_channel = concat (allBuffers ls), ab_sampleRate = ctx_sampleRate ctx\<rparr>;
            h1 = h\<lparr>duration := ab_duration complete\<rparr>;
            h2 = h1\<lparr>wavCalls := wavCalls h1 @ [complete]\<rparr>;
            h3 = (case audioRef h2 of
                    None \<Rightarrow> h2
                  | Some a \<Rightarrow>
                      setupAudioListeners (renderTransitioned ls) (setAudioSource complete h2));
            h4 = h3\<lparr>webAudio := (webAudio h3)\<lparr>originalBuffer := Some complete\<rparr>\<rparr>
        in Inr (addEndedListener ls h4))"
  by (simp add: finalize_def Let_def combine_buffers_concat createBuffer_length
      copyToChannel_createBuffer)

lemma on_done_hook:
  "activeSources (webAudio (snd (on_done opts s))) = activeSources (webAudio (snd s))"
  "audioContext (webAudio (snd (on_done opts s))) = audioContext (webAudio (snd s))"
  "isAudioPlaying (webAudio (snd (on_done opts s))) = isAudioPlaying (webAudio (snd s))"
  "isAudioReady (snd (on_done opts s)) = isAudioReady (snd s)"
  "isAudioTransitioned (snd (on_done opts s)) = isAudioTransitioned (snd s)"
  "currentTime (snd (on_done opts s)) = currentTime (snd s)"
  by (auto simp add: on_done_def finalize_def Let_def createBuffer_def addEndedListener_def
      setupAudioListeners_def setAudioSource_def split: option.split sum.split if_splits)

lemma on_done_locals:
  "allBuffers (fst (on_done opts s)) = allBuffers (fst s)"
  "leftover (fst (on_done opts s)) = leftover (fst s)"
  "nextStartTime (fst (on_done opts s)) = nextStartTime (fst s)"
  by (simp_all add: on_done_def split: option.split sum.split)

lemma audioContext_session_view:
  "session_view h' = session_view h \<Longrightarrow>
     (audioContext (webAudio h') = None \<longleftrightarrow> audioContext (webAudio h) = None)"
  by (simp add: session_view_def) (metis option.map_disc_iff)

lemma isAudioPlaying_session_view:
  "session_view h' = session_view h \<Longrightarrow>
     isAudioPlaying (webAudio h') = isAudioPlaying (webAudio h)"
  by (simp add: session_view_def)

text \<open>
  The rule for a loop that is not interrupted: a property of the bytes received so far,
  of the local variables and of the part of the state that the waits leave alone, kept
  by the loop body, holds when the stream is done and goes through what is done then.
\<close>

lemma stream_loop_rule:
  assumes ctx: "audioContext (webAudio (snd s)) \<noteq> None"
    and playing: "isAudioPlaying (webAudio (snd s))"
    and ready: "\<not> isAudioReady (snd s)"
    and nothrow: "thrown (fst s) = None"
    and quiet: "stop_free (concat (map fst rest) @ final)"
    and init: "P received s"
    and chunk: "\<And>received ctx v s. P received s \<Longrightarrow> audioContext (webAudio (snd s)) = Some ctx \<Longrightarrow>
                  P (received @ v) (process_chunk ctx v s)"
    and wait: "\<And>received l h h'. P received (l, h) \<Longrightarrow> session_view h' = session_view h \<Longrightarrow>
                  P received (l, h')"
    and finish: "\<And>s. P (received @ v @ concat (map snd rest)) s \<Longrightarrow>
                  audioContext (webAudio (snd s)) \<noteq> None \<Longrightarrow> Q (on_done opts s)"
  shows "Q (stream_loop opts v rest final s)"
  using ctx playing ready quiet init finish nothrow
proof (induction rest arbitrary: v s received)
  case Nil
  then obtain c where c: "audioContext (webAudio (snd s)) = Some c" by auto
  let ?s1 = "process_chunk c v s"
  let ?s2 = "(fst ?s1, during_wait opts final (snd ?s1))"
  have r: "\<not> isAudioReady (snd ?s1)"
    using Nil.prems(3) by (simp add: process_chunk_isAudioReady)
  have q: "stop_free final" using Nil.prems(4) by simp
  have view: "session_view (during_wait opts final (snd ?s1)) = session_view (snd ?s1)"
    by (rule session_view_during_wait [OF r q])
  have "P (received @ v) (fst ?s1, snd ?s1)"
    using chunk [OF Nil.prems(5) c] by simp
  then have p2: "P (received @ v @ concat (map snd [])) ?s2"
    using wait [OF _ view, of "received @ v" "fst ?s1"] by simp
  have a: "audioContext (webAudio (snd ?s2)) \<noteq> None"
    using audioContext_session_view [OF view] c by (simp add: process_chunk_audioContext)
  have "Q (on_done opts ?s2)" by (rule Nil.prems(6) [OF p2 a])
  then show ?case
    by (simp only: stream_loop_Nil [OF c Nil.prems(2) Nil.prems(7)])
next
  case (Cons x rest)
  obtain cs nxt where x: "x = (cs, nxt)" by (cases x)
  from Cons.prems obtain c where c: "audioContext (webAudio (snd s)) = Some c" by auto
  let ?s1 = "process_chunk c v s"
  let ?s2 = "(fst ?s1, during_wait opts cs (snd ?s1))"
  have r: "\<not> isAudioReady (snd ?s1)"
    using Cons.prems(3) by (simp add: process_chunk_isAudioReady)
  have q: "stop_free cs" and q': "stop_free (concat (map fst rest) @ final)"
    using Cons.prems(4) by (simp_all add: x stop_free_append)
  have view: "session_view (during_wait opts cs (snd ?s1)) = session_view (snd ?s1)"
    by (rule session_view_during_wait [OF r q])
  have "P (received @ v) (fst ?s1, snd ?s1)"
    using chunk [OF Cons.prems(5) c] by simp
  then have p2: "P (received @ v) ?s2" using view by (rule wait)
  have a: "audioContext (webAudio (snd ?s2)) \<noteq> None"
    using audioContext_session_view [OF view] c by (simp add: process_chunk_audioContext)
  have p: "isAudioPlaying (webAudio (snd ?s2))"
    using isAudioPlaying_session_view [OF view] Cons.prems(2)
    by (simp add: process_chunk_isAudioPlaying)
  have r2: "\<not> isAudioReady (snd ?s2)"
    using isAudioReady_session_view [OF view] r by simp
  have t2: "thrown (fst ?s2) = None"
    using Cons.prems(7) by (simp add: process_chunk_thrown)
  have "Q (stream_loop opts nxt rest final ?s2)"
  proof (rule Cons.IH [OF a p r2 q' p2 _ t2])
    fix t
    assume "P ((received @ v) @ nxt @ concat (map snd rest)) t"
      and "audioContext (webAudio (snd t)) \<noteq> None"
    then show "Q (on_done opts t)"
      using Cons.prems(6) [of t] by (simp add: x)
  qed
  then show ?case
    by (simp only: x stream_loop_Cons [OF c Cons.prems(2) Cons.prems(7)])
qed

lemma session_view_resetState:
  "session_view (resetState h) =
     ((False, [], None, map_option ctx_sampleRate (audioContext (webAudio h))),
      (wavCalls h, duration h, False, False),
      map_option (\<lambda>a. (el_src a, el_canplay_once a)) (audioRef h))"
  by (simp add: session_view_def resetState_def web_resetState_def stop_def stopStream_def
      stopAudio_def updatePlayingState_def Let_def split: option.split)

lemma audioContext_resetState:
  "audioContext (webAudio (resetState h)) = audioContext (webAudio h)"
  by (simp add: resetState_def web_resetState_def stop_def stopStream_def stopAudio_def
      updatePlayingState_def Let_def split: option.split)

text \<open>
  The state in which \<open>streamAudio\<close> starts to wait for its first read, and the state in
  which it enters the loop or, for an empty stream, returns.
\<close>

lemma streamAudio_run_eq:
  "streamAudio_run opts stream final h =
     (let h3 = (resetState h)\<lparr>webAudio := (webAudio (resetState h))\<lparr>isAudioPlaying := True\<rparr>,
                               currentTime := 0\<rparr>;
          ls = \<lparr>nextStartTime = web_getCurrentTime h, totalDuration = 0, allBuffers = [],
                leftover = [], source = None, renderTransitioned = isAudioTransitioned h,
                thrown = None\<rparr>
      in case stream of
           [] \<Rightarrow> (ls, updatePlayingState True (during_wait opts final h3))
         | (cs, v) # rest \<Rightarrow>
             stream_loop opts v rest final (ls, updatePlayingState True (during_wait opts cs h3)))"
  by (simp add: streamAudio_run_def Let_def web_getCurrentTime_def audioContext_resetState
      split: list.split prod.split)

lemma session_view_first_wait:
  assumes "stop_free cs"
  shows "session_view (updatePlayingState True (during_wait opts cs
           ((resetState h)\<lparr>webAudio := (webAudio (resetState h))\<lparr>isAudioPlaying := True\<rparr>,
                             currentTime := 0\<rparr>)))
         = ((True, [], None, map_option ctx_sampleRate (audioContext (webAudio h))),
            (wavCalls h, duration h, False, False),
            map_option (\<lambda>a. (el_src a, el_canplay_once a)) (audioRef h))"
proof -
  let ?h3 = "(resetState h)\<lparr>webAudio := (webAudio (resetState h))\<lparr>isAudioPlaying := True\<rparr>,
                             currentTime := 0\<rparr>"
  have v3: "session_view ?h3
         = ((True, [], None, map_option ctx_sampleRate (audioContext (webAudio h))),
            (wavCalls h, duration h, False, False),
            map_option (\<lambda>a. (el_src a, el_canplay_once a)) (audioRef h))"
    using session_view_resetState [of h] by (simp add: session_view_def)
  then have r: "\<not> isAudioReady ?h3" by (simp add: session_view_def)
  have "session_view (during_wait opts cs ?h3) = session_view ?h3"
    by (rule session_view_during_wait [OF r assms])
  moreover have "session_view (updatePlayingState True k) = session_view k" for k
    by (simp add: session_view_def updatePlayingState_def)
  ultimately show ?thesis using v3 by simp
qed

text \<open>
  The rule for a whole call that is not interrupted, on a hook whose audio context exists.
\<close>

lemma streamAudio_run_rule:
  assumes ctx: "audioContext (webAudio h) = Some ctx"
    and quiet: "uninterrupted stream final"
    and init: "\<And>k. session_view k
                   = ((True, [], None, Some (ctx_sampleRate ctx)),
                      (wavCalls h, duration h, False, False),
                      map_option (\<lambda>a. (el_src a, el_canplay_once a)) (audioRef h)) \<Longrightarrow>
                 P [] (\<lparr>nextStartTime = ctx_currentTime ctx, totalDuration = 0, allBuffers = [],
                         leftover = [], source = None,
                         renderTransitioned = isAudioTransitioned h, thrown = None\<rparr>, k)"
    and chunk: "\<And>received c v s. P received s \<Longrightarrow> audioContext (webAudio (snd s)) = Some c \<Longrightarrow>
                  P (received @ v) (process_chunk c v s)"
    and wait: "\<And>received l k k'. P received (l, k) \<Longrightarrow> session_view k' = session_view k \<Longrightarrow>
                  P received (l, k')"
    and finish: "\<And>s. P (concat (map snd stream)) s \<Longrightarrow> stream \<noteq> [] \<Longrightarrow>
                  audioContext (webAudio (snd s)) \<noteq> None \<Longrightarrow> Q (on_done opts s)"
    and empty: "\<And>s. P [] s \<Longrightarrow> stream = [] \<Longrightarrow> Q s"
  shows "Q (streamAudio_run opts stream final h)"
proof -
  let ?h3 = "(resetState h)\<lparr>webAudio := (webAudio (resetState h))\<lparr>isAudioPlaying := True\<rparr>,
                             currentTime := 0\<rparr>"
  let ?l = "\<lparr>nextStartTime = web_getCurrentTime h, totalDuration = 0, allBuffers = [],
         leftover = [], source = None, renderTransitioned = isAudioTransitioned h,
         thrown = None\<rparr>"
  have t0: "web_getCurrentTime h = ctx_currentTime ctx"
    using ctx by (simp add: web_getCurrentTime_def)
  have start: "P [] (?l, updatePlayingState True (during_wait opts cs ?h3))"
    if "stop_free cs" for cs
    unfolding t0
    by (rule init) (simp add: session_view_first_wait [OF that] ctx)
  show ?thesis
  proof (cases stream)
    case Nil
    with quiet have "stop_free final" by (simp add: uninterrupted_def)
    from empty [OF start [OF this] Nil] show ?thesis
      by (simp add: streamAudio_run_eq Nil)
  next
    case (Cons x rest)
    obtain cs v where x: "x = (cs, v)" by (cases x)
    from quiet have q: "stop_free cs" and q': "stop_free (concat (map fst rest) @ final)"
      by (simp_all add: uninterrupted_def Cons x stop_free_append)
    let ?k = "updatePlayingState True (during_wait opts cs ?h3)"
    have view: "session_view ?k
         = ((True, [], None, Some (ctx_sampleRate ctx)),
            (wavCalls h, duration h, False, False),
            map_option (\<lambda>a. (el_src a, el_canplay_once a)) (audioRef h))"
      by (simp add: session_view_first_wait [OF q] ctx)
    then have a: "audioContext (webAudio (snd (?l, ?k))) \<noteq> None"
      and p: "isAudioPlaying (webAudio (snd (?l, ?k)))"
      and r: "\<not> isAudioReady (snd (?l, ?k))"
      by (auto simp add: session_view_def)
    have f: "Q (on_done opts t)"
      if "P ([] @ v @ concat (map snd rest)) t" "audioContext (webAudio (snd t)) \<noteq> None" for t
      using finish [of t] that by (simp add: Cons x)
    have n: "thrown (fst (?l, ?k)) = None" by simp
    have "Q (stream_loop opts v rest final (?l, ?k))"
      by (rule stream_loop_rule [where P = P and received = "[]", OF a p r n q' start [OF q]])
         (erule (1) chunk, erule (1) wait, erule (1) f)
    then show ?thesis
      by (simp add: streamAudio_run_eq Cons x)
  qed
qed

lemma length_bytes_of_samples: "length (concat (map bytes_of_float32 xs)) = 4 * length xs"
  by (induction xs) (simp_all add: bytes_of_float32_def)

lemma streamAudio_run_bytes:
  assumes ctx: "audioContext (webAudio h) \<noteq> None"
    and quiet: "uninterrupted stream final"
  shows "concat (map bytes_of_float32
           (concat (allBuffers (fst (streamAudio_run opts stream final h)))))
           @ leftover (fst (streamAudio_run opts stream final h))
         = concat (map snd stream)"
proof -
  from ctx obtain c where c: "audioContext (webAudio h) = Some c" by auto
  let ?P = "\<lambda>received (s :: locals \<times> hook).
      concat (map bytes_of_float32 (concat (allBuffers (fst s)))) @ leftover (fst s) = received"
  show ?thesis
  proof (rule streamAudio_run_rule [where P = ?P, OF c quiet])
    fix received ctx v s
    assume "?P received s"
    then show "?P (received @ v) (process_chunk ctx v s)"
      using decode_bytes [of "leftover (fst s)" v]
      by (simp add: process_chunk_samples process_chunk_leftover)
  qed (simp_all add: on_done_locals)
qed

lemma streamAudio_run_count:
  assumes "audioContext (webAudio h) \<noteq> None" and "uninterrupted stream final"
  shows "4 * length (concat (allBuffers (fst (streamAudio_run opts stream final h))))
           + length (leftover (fst (streamAudio_run opts stream final h)))
         = length (concat (map snd stream))"
  using arg_cong [OF streamAudio_run_bytes [OF assms, of opts], of length]
  by (simp add: length_bytes_of_samples)

lemma streamAudio_run_leftover:
  assumes ctx: "audioContext (webAudio h) \<noteq> None"
    and quiet: "uninterrupted stream final"
  shows "length (leftover (fst (streamAudio_run opts stream final h))) \<le> 3"
proof -
  from ctx obtain c where c: "audioContext (webAudio h) = Some c" by auto
  let ?P = "\<lambda>(received :: byte list) (s :: locals \<times> hook). length (leftover (fst s)) \<le> 3"
  have m: "(x :: nat) mod 4 \<le> 3" for x by simp
  show ?thesis
    by (rule streamAudio_run_rule [where P = ?P, OF c quiet])
       (simp_all add: on_done_locals process_chunk_leftover length_snd_decode m)
qed

text \<open>
  C1. Byte conservation. Take a \<open>streamAudio\<close> call on a hook whose audio context
  exists, during which \<open>stop\<close> is not called, by the user or by an \<open>ended\<close>
  listener. However the input is cut into chunks, and whatever else happens between the
  reads (time passing, ticks of the time tracker, \<open>play\<close>, \<open>pause\<close>, \<open>rewind\<close>,
  \<open>statechange\<close>), when the stream is done four times the number of decoded samples
  plus the length of the leftover is the number of bytes received; moreover the bytes of
  the decoded samples followed by the leftover are the received bytes in order.
\<close>

theorem byte_conservation:
  assumes "audioContext (webAudio h) \<noteq> None" and "uninterrupted stream final"
  shows "4 * length (concat (allBuffers (fst (streamAudio_run opts stream final h))))
           + length (leftover (fst (streamAudio_run opts stream final h)))
         = length (concat (map snd stream))
       \<and> concat (map bytes_of_float32
           (concat (allBuffers (fst (streamAudio_run opts stream final h)))))
           @ leftover (fst (streamAudio_run opts stream final h))
         = concat (map snd stream)"
  using streamAudio_run_count [OF assms] streamAudio_run_bytes [OF assms] by simp

lemma initial_audioContext:
  "audioContext (webAudio (initial default_options))
     = Some \<lparr>ctx_sampleRate = 24000, ctx_currentTime = 0, ctx_running = True\<rparr>"
  by (simp add: initial_def default_options_def)

lemma uninterrupted_three_chunks: "uninterrupted three_chunks [Elapse (1 / 10)]"
  by (simp add: uninterrupted_def stop_free_def three_chunks_def)

theorem byte_conservation_witness:
  "audioContext (webAudio (initial default_options)) \<noteq> None
   \<and> uninterrupted three_chunks [Elapse (1 / 10)]
   \<and> 4 * length (concat (allBuffers (fst (streamAudio_run default_options three_chunks
             [Elapse (1 / 10)] (initial default_options)))))
       + length (leftover (fst (streamAudio_run default_options three_chunks
             [Elapse (1 / 10)] (initial default_options))))
     = 16"
proof -
  have c: "audioContext (webAudio (initial default_options)) \<noteq> None"
    by (simp add: initial_audioContext)
  have "length (concat (map snd three_chunks)) = 16"
    by (simp add: three_chunks_def chunk3_def chunk5_def chunk8_def)
  with byte_conservation [OF c uninterrupted_three_chunks, of default_options]
    c uninterrupted_three_chunks
  show ?thesis by simp
qed

section \<open>Scheduling\<close>

lemma contiguous_append:
  "contiguous t (xs @ [n]) \<longleftrightarrow>
     contiguous t xs \<and> node_startTime n = t + sum_list (durations xs)"
proof (induction xs arbitrary: t)
  case Nil
  show ?case by (simp add: durations_def)
next
  case (Cons a xs)
  show ?case
    by (simp add: Cons.IH [of "t + ab_duration (node_buffer a)"] durations_def add.assoc)
qed

lemma contiguous_nth:
  "contiguous t xs \<Longrightarrow> i < length xs \<Longrightarrow>
     node_startTime (xs ! i) = t + sum_list (durations (take i xs))"
proof (induction xs arbitrary: t i)
  case Nil
  then show ?case by simp
next
  case (Cons n ns)
  show ?case
  proof (cases i)
    case 0
    with Cons.prems show ?thesis by (simp add: durations_def)
  next
    case (Suc j)
    with Cons.prems have "contiguous (t + ab_duration (node_buffer n)) ns" "j < length ns"
      by simp_all
    from Cons.IH [OF this] show ?thesis
      by (simp add: Suc durations_def add.assoc)
  qed
qed

lemma schedule_inv_chunk:
  "schedule_inv t0 (ctx_sampleRate ctx) s \<Longrightarrow>
     schedule_inv t0 (ctx_sampleRate ctx) (process_chunk ctx v s)"
  by (simp add: schedule_inv_def process_chunk_eq Let_def contiguous_append durations_def)

lemma activeSources_session_view:
  "session_view h' = session_view h \<Longrightarrow>
     activeSources (webAudio h') = activeSources (webAudio h)"
  by (simp add: session_view_def)

lemma sampleRate_session_view:
  "session_view h' = session_view h \<Longrightarrow>
     map_option ctx_sampleRate (audioContext (webAudio h'))
       = map_option ctx_sampleRate (audioContext (webAudio h))"
  by (simp add: session_view_def)

lemma streamAudio_run_schedule_inv:
  assumes ctx: "audioContext (webAudio h) = Some ctx"
    and quiet: "uninterrupted stream final"
  shows "schedule_inv (ctx_currentTime ctx) (ctx_sampleRate ctx)
           (streamAudio_run opts stream final h)"
proof -
  let ?t0 = "ctx_currentTime ctx" and ?r = "ctx_sampleRate ctx"
  let ?P = "\<lambda>(received :: byte list) (s :: locals \<times> hook).
      schedule_inv ?t0 ?r s
      \<and> map_option ctx_sampleRate (audioContext (webAudio (snd s))) = Some ?r"
  have "?P (concat (map snd stream)) (streamAudio_run opts stream final h)"
  proof (rule streamAudio_run_rule [where P = ?P and Q = "?P (concat (map snd stream))",
        OF ctx quiet])
    fix k assume "session_view k = ((True, [], None, Some ?r), (wavCalls h, duration h, False, False),
        map_option (\<lambda>a. (el_src a, el_canplay_once a)) (audioRef h))"
    then show "?P [] (\<lparr>nextStartTime = ?t0, totalDuration = 0, allBuffers = [],
        leftover = [], source = None, renderTransitioned = isAudioTransitioned h,
        thrown = None\<rparr>, k)"
      by (simp add: session_view_def schedule_inv_def durations_def)
  next
    fix received c v and s :: "locals \<times> hook"
    assume p: "?P received s" and c: "audioContext (webAudio (snd s)) = Some c"
    then have r: "ctx_sampleRate c = ?r" by simp
    from p have "schedule_inv ?t0 (ctx_sampleRate c) s" by (simp add: r)
    then have "schedule_inv ?t0 (ctx_sampleRate c) (process_chunk c v s)"
      by (rule schedule_inv_chunk)
    with p show "?P (received @ v) (process_chunk c v s)"
      by (simp add: r process_chunk_audioContext)
  next
    fix received l k k'
    assume p: "?P received (l, k)" and v: "session_view k' = session_view k"
    show "?P received (l, k')"
      using p activeSources_session_view [OF v] sampleRate_session_view [OF v]
      by (simp add: schedule_inv_def)
  next
    fix s :: "locals \<times> hook"
    assume p: "?P (concat (map snd stream)) s"
    from p show "?P (concat (map snd stream)) (on_done opts s)"
      by (simp add: schedule_inv_def on_done_hook on_done_locals)
  next
    fix s :: "locals \<times> hook"
    assume "?P [] s" and "stream = []"
    then show "?P (concat (map snd stream)) s" by simp
  qed
  then show ?thesis by simp
qed

lemma audioContext_Some_session_view:
  assumes "session_view h = session_view h'" and "audioContext (webAudio h) = Some c"
  obtains c' where "audioContext (webAudio h') = Some c'" "ctx_sampleRate c = ctx_sampleRate c'"
proof (cases "audioContext (webAudio h')")
  case None
  with assms show ?thesis by (simp add: session_view_def)
next
  case (Some c')
  with assms have "ctx_sampleRate c = ctx_sampleRate c'" by (simp add: session_view_def)
  with Some that show ?thesis by blast
qed

lemma session_view_process_chunk:
  assumes "fst s = fst s'" and "session_view (snd s) = session_view (snd s')"
    and "ctx_sampleRate c = ctx_sampleRate c'"
  shows "fst (process_chunk c v s) = fst (process_chunk c' v s')"
    and "session_view (snd (process_chunk c v s)) = session_view (snd (process_chunk c' v s'))"
  using assms by (simp_all add: process_chunk_eq Let_def session_view_def)

lemma stream_loop_same_chunks:
  assumes "map snd rest = map snd rest'"
    and "stop_free (concat (map fst rest) @ final)"
    and "stop_free (concat (map fst rest') @ final')"
    and "fst s = fst s'"
    and "session_view (snd s) = session_view (snd s')"
    and "audioContext (webAudio (snd s)) \<noteq> None"
    and "isAudioPlaying (webAudio (snd s))"
    and "\<not> isAudioReady (snd s)"
    and "thrown (fst s) = None"
  shows "activeSources (webAudio (snd (stream_loop opts v rest final s)))
           = activeSources (webAudio (snd (stream_loop opts v rest' final' s')))"
  using assms
proof (induction rest arbitrary: rest' v s s')
  case Nil
  then have r: "rest' = []" by simp
  from Nil.prems(6) obtain c where c: "audioContext (webAudio (snd s)) = Some c" by auto
  from audioContext_Some_session_view [OF Nil.prems(5) c]
  obtain c' where c': "audioContext (webAudio (snd s')) = Some c'"
    and rate: "ctx_sampleRate c = ctx_sampleRate c'"
    by blast
  have p': "isAudioPlaying (webAudio (snd s'))" and n': "\<not> isAudioReady (snd s')"
    using Nil.prems(5,7,8) by (simp_all add: session_view_def)
  have t': "thrown (fst s') = None"
    using Nil.prems(4,9) by simp
  let ?t = "process_chunk c v s" and ?t' = "process_chunk c' v s'"
  note same = session_view_process_chunk [OF Nil.prems(4) Nil.prems(5) rate, of v]
  have q: "stop_free final" "stop_free final'"
    using Nil.prems(2,3) r by simp_all
  have w: "session_view (during_wait opts final (snd ?t)) = session_view (snd ?t)"
    by (rule session_view_during_wait) (simp_all add: process_chunk_isAudioReady Nil.prems(8) q)
  have w': "session_view (during_wait opts final' (snd ?t')) = session_view (snd ?t')"
    by (rule session_view_during_wait) (simp_all add: process_chunk_isAudioReady n' q)
  have "activeSources (webAudio (during_wait opts final (snd ?t)))
      = activeSources (webAudio (during_wait opts final' (snd ?t')))"
    using activeSources_session_view [OF w] activeSources_session_view [OF w']
      activeSources_session_view [OF same(2)]
    by simp
  then show ?case
    by (simp add: r stream_loop_Nil [OF c Nil.prems(7) Nil.prems(9)]
        stream_loop_Nil [OF c' p' t'] on_done_hook)
next
  case (Cons x rest)
  obtain cs nxt where x: "x = (cs, nxt)" by (cases x)
  from Cons.prems(1) obtain cs' rest2 where r: "rest' = (cs', nxt) # rest2"
    and m: "map snd rest = map snd rest2"
    by (cases rest') (auto simp: x)
  from Cons.prems(6) obtain c where c: "audioContext (webAudio (snd s)) = Some c" by auto
  from audioContext_Some_session_view [OF Cons.prems(5) c]
  obtain c' where c': "audioContext (webAudio (snd s')) = Some c'"
    and rate: "ctx_sampleRate c = ctx_sampleRate c'"
    by blast
  have p': "isAudioPlaying (webAudio (snd s'))" and n': "\<not> isAudioReady (snd s')"
    using Cons.prems(5,7,8) by (simp_all add: session_view_def)
  have t': "thrown (fst s') = None"
    using Cons.prems(4,9) by simp
  let ?t = "process_chunk c v s" and ?t' = "process_chunk c' v s'"
  note same = session_view_process_chunk [OF Cons.prems(4) Cons.prems(5) rate, of v]
  have q: "stop_free cs" "stop_free (concat (map fst rest) @ final)"
    using Cons.prems(2) by (simp_all add: x stop_free_append)
  have q': "stop_free cs'" "stop_free (concat (map fst rest2) @ final')"
    using Cons.prems(3) by (simp_all add: r stop_free_append)
  have w: "session_view (during_wait opts cs (snd ?t)) = session_view (snd ?t)"
    by (rule session_view_during_wait) (simp_all add: process_chunk_isAudioReady Cons.prems(8) q)
  have w': "session_view (during_wait opts cs' (snd ?t')) = session_view (snd ?t')"
    by (rule session_view_during_wait) (simp_all add: process_chunk_isAudioReady n' q')
  let ?u = "(fst ?t, during_wait opts cs (snd ?t))"
  let ?u' = "(fst ?t', during_wait opts cs' (snd ?t'))"
  have f: "fst ?u = fst ?u'" by (simp add: same(1))
  have v: "session_view (snd ?u) = session_view (snd ?u')" by (simp add: w w' same(2))
  have a: "audioContext (webAudio (snd ?u)) \<noteq> None"
    using audioContext_session_view [OF w] c by (simp add: process_chunk_audioContext)
  have p: "isAudioPlaying (webAudio (snd ?u))"
    using isAudioPlaying_session_view [OF w] Cons.prems(7)
    by (simp add: process_chunk_isAudioPlaying)
  have n: "\<not> isAudioReady (snd ?u)"
    using isAudioReady_session_view [OF w] Cons.prems(8)
    by (simp add: process_chunk_isAudioReady)
  have t: "thrown (fst ?u) = None"
    using Cons.prems(9) by (simp add: process_chunk_thrown)
  from Cons.IH [OF m q(2) q'(2) f v a p n t, of nxt] show ?case
    by (simp only: x r stream_loop_Cons [OF c Cons.prems(7) Cons.prems(9)]
        stream_loop_Cons [OF c' p' t'])
qed

lemma streamAudio_same_chunks:
  assumes ctx: "audioContext (webAudio h) \<noteq> None"
    and same: "map snd stream' = map snd stream"
    and quiet: "uninterrupted stream final" "uninterrupted stream' final'"
  shows "activeSources (webAudio (streamAudio opts stream' final' h))
           = activeSources (webAudio (streamAudio opts stream final h))"
proof (cases stream)
  case Nil
  with same have s': "stream' = []" by simp
  let ?h3 = "(resetState h)\<lparr>webAudio := (webAudio (resetState h))\<lparr>isAudioPlaying := True\<rparr>,
                             currentTime := 0\<rparr>"
  from quiet have "stop_free final" "stop_free final'"
    by (simp_all add: uninterrupted_def Nil s')
  then have "session_view (updatePlayingState True (during_wait opts final' ?h3))
        = session_view (updatePlayingState True (during_wait opts final ?h3))"
    by (simp add: session_view_first_wait)
  then show ?thesis
    by (simp add: streamAudio_def streamAudio_run_eq Nil s' session_view_def)
next
  case (Cons x rest)
  obtain cs v where x: "x = (cs, v)" by (cases x)
  from same Cons x obtain cs' rest' where s': "stream' = (cs', v) # rest'"
    and m: "map snd rest' = map snd rest"
    by (cases stream') auto
  let ?h3 = "(resetState h)\<lparr>webAudio := (webAudio (resetState h))\<lparr>isAudioPlaying := True\<rparr>,
                             currentTime := 0\<rparr>"
  let ?l = "\<lparr>nextStartTime = web_getCurrentTime h, totalDuration = 0, allBuffers = [],
         leftover = [], source = None, renderTransitioned = isAudioTransitioned h,
         thrown = None\<rparr>"
  let ?k = "updatePlayingState True (during_wait opts cs ?h3)"
  let ?k' = "updatePlayingState True (during_wait opts cs' ?h3)"
  from quiet have q: "stop_free cs" "stop_free (concat (map fst rest) @ final)"
    and q': "stop_free cs'" "stop_free (concat (map fst rest') @ final')"
    by (simp_all add: uninterrupted_def Cons x s' stop_free_append)
  note vk = session_view_first_wait [OF q(1), of opts h]
  note vk' = session_view_first_wait [OF q'(1), of opts h]
  have v: "session_view (snd (?l, ?k')) = session_view (snd (?l, ?k))"
    by (simp add: vk vk')
  from ctx have a: "audioContext (webAudio (snd (?l, ?k'))) \<noteq> None"
    and p: "isAudioPlaying (webAudio (snd (?l, ?k')))"
    and n: "\<not> isAudioReady (snd (?l, ?k'))"
    using vk' by (auto simp add: session_view_def)
  have t: "thrown (fst (?l, ?k')) = None" by simp
  have "activeSources (webAudio (snd (stream_loop opts v rest' final' (?l, ?k'))))
        = activeSources (webAudio (snd (stream_loop opts v rest final (?l, ?k))))"
    using stream_loop_same_chunks [OF m q'(2) q(2) _ v a p n t, of opts v] by simp
  then show ?thesis
    by (simp add: streamAudio_def streamAudio_run_eq Cons x s')
qed

text \<open>
  C2. Scheduling contiguity. Take a \<open>streamAudio\<close> call on a hook whose audio context
  exists, during which \<open>stop\<close> is not called. The buffers scheduled are the decoded
  non-empty chunks in order; the start time of each is the clock of the audio context at
  the moment of the call plus the sum of the durations of the chunks scheduled before it,
  the duration of a chunk being its number of samples over the sample rate; hence each
  chunk starts when the one before it ends. When the chunks arrive and what else happens
  between the reads does not matter: two such calls with the same chunks give the same
  schedule.
\<close>

theorem scheduling_contiguity:
  fixes opts stream final h srcs
  assumes ctx: "audioContext (webAudio h) = Some ctx"
    and quiet: "uninterrupted stream final"
  defines "srcs \<equiv> activeSources (webAudio (streamAudio opts stream final h))"
  shows "(\<forall>i < length srcs.
            node_startTime (srcs ! i) = ctx_currentTime ctx + sum_list (durations (take i srcs))
          \<and> ab_duration (node_buffer (srcs ! i))
              = real (length (ab_channel (node_buffer (srcs ! i)))) / real (ctx_sampleRate ctx)
          \<and> ab_channel (node_buffer (srcs ! i)) \<noteq> []
          \<and> (Suc i < length srcs \<longrightarrow>
                node_startTime (srcs ! Suc i)
                  = node_startTime (srcs ! i) + ab_duration (node_buffer (srcs ! i))))
       \<and> map (\<lambda>n. ab_channel (node_buffer n)) srcs
           = allBuffers (fst (streamAudio_run opts stream final h))
       \<and> (map snd stream' = map snd stream \<and> uninterrupted stream' final' \<longrightarrow>
            activeSources (webAudio (streamAudio opts stream' final' h)) = srcs)"
proof (intro conjI allI impI)
  let ?t0 = "ctx_currentTime ctx" and ?r = "ctx_sampleRate ctx"
  let ?ls = "fst (streamAudio_run opts stream final h)"
  have inv: "schedule_inv ?t0 ?r (streamAudio_run opts stream final h)"
    by (rule streamAudio_run_schedule_inv [OF ctx quiet])
  have srcs: "srcs = activeSources (webAudio (snd (streamAudio_run opts stream final h)))"
    by (simp add: srcs_def streamAudio_def)
  from inv have cont: "contiguous ?t0 srcs"
    and bufs: "map node_buffer srcs = map (\<lambda>b. \<lparr>ab_channel = b, ab_sampleRate = ?r\<rparr>) (allBuffers ?ls)"
    and nonempty: "[] \<notin> set (allBuffers ?ls)"
    by (simp_all add: schedule_inv_def srcs)
  from bufs have len: "length srcs = length (allBuffers ?ls)"
    by (rule map_eq_imp_length_eq)
  have buf: "node_buffer (srcs ! i) = \<lparr>ab_channel = allBuffers ?ls ! i, ab_sampleRate = ?r\<rparr>"
    if "i < length srcs" for i
    using arg_cong [OF bufs, of "\<lambda>xs. xs ! i"] that len by simp
  show "map (\<lambda>n. ab_channel (node_buffer n)) srcs = allBuffers ?ls"
    using arg_cong [OF bufs, of "map ab_channel"] by (simp add: comp_def)
  {
    fix i assume i: "i < length srcs"
    show "node_startTime (srcs ! i) = ?t0 + sum_list (durations (take i srcs))"
      by (rule contiguous_nth [OF cont i])
    show "ab_duration (node_buffer (srcs ! i))
            = real (length (ab_channel (node_buffer (srcs ! i)))) / real ?r"
      by (simp add: buf [OF i] ab_duration_def)
    have "allBuffers ?ls ! i \<in> set (allBuffers ?ls)"
      using i len by simp
    with nonempty have "allBuffers ?ls ! i \<noteq> []" by metis
    then show "ab_channel (node_buffer (srcs ! i)) \<noteq> []"
      by (simp add: buf [OF i])
    show "node_startTime (srcs ! Suc i)
            = node_startTime (srcs ! i) + ab_duration (node_buffer (srcs ! i))"
      if "Suc i < length srcs"
      using contiguous_nth [OF cont that] contiguous_nth [OF cont i] i
      by (simp add: take_Suc_conv_app_nth durations_def)
  }
  show "activeSources (webAudio (streamAudio opts stream' final' h)) = srcs"
    if "map snd stream' = map snd stream \<and> uninterrupted stream' final'"
    unfolding srcs_def
    using streamAudio_same_chunks [of h stream' stream final final' opts] ctx quiet that
    by simp
qed

text \<open>The equations by which a run on given inputs is computed.\<close>

lemmas run_defs =
  step_def control_step_def rerender_def render_eq render_runs_eq react_state_def
  transition_effect_def handoff_runs_def
  streamAudio_def streamAudio_run_def stream_loop.simps process_chunk_eq
  on_done_def finalize_eq addEndedListener_def
  resetState_def web_resetState_def stop_def play_def pause_def stop_of_render_def
  stopStream_def playStream_def pauseStream_def stopAudio_def playAudio_def pauseAudio_def
  handleStateChange_def source_ended_def element_ended_def
  updatePlayingState_def elapse_def tick_def canplay_def
  web_getCurrentTime_def html5_getCurrentTime_def html5_setCurrentTime_def
  setupAudioListeners_def setAudioSource_def initial_def
  default_options_def Let_def ab_duration_def

lemmas eval_defs = run_defs decode_eq chunk3_def chunk5_def chunk8_def

lemma example_schedule:
  "activeSources (webAudio (streamAudio default_options three_chunks [Elapse (1 / 10)]
       (initial default_options)))
   = [\<lparr>node_buffer = \<lparr>ab_channel = [float32_of_bytes 0 0 128 63, float32_of_bytes 0 0 0 64],
                       ab_sampleRate = 24000\<rparr>, node_startTime = 0\<rparr>,
      \<lparr>node_buffer = \<lparr>ab_channel = [float32_of_bytes 1 2 3 4, float32_of_bytes 5 6 7 8],
                       ab_sampleRate = 24000\<rparr>, node_startTime = 1 / 12000\<rparr>]"
  by (simp add: three_chunks_def eval_defs)

theorem scheduling_contiguity_witness:
  "audioContext (webAudio (initial default_options))
     = Some \<lparr>ctx_sampleRate = 24000, ctx_currentTime = 0, ctx_running = True\<rparr>
   \<and> uninterrupted three_chunks [Elapse (1 / 10)]
   \<and> length (activeSources (webAudio (streamAudio default_options three_chunks
         [Elapse (1 / 10)] (initial default_options)))) = 2
   \<and> node_startTime (activeSources (webAudio (streamAudio default_options three_chunks
         [Elapse (1 / 10)] (initial default_options))) ! Suc 0)
       = node_startTime (activeSources (webAudio (streamAudio default_options three_chunks
         [Elapse (1 / 10)] (initial default_options))) ! 0)
         + ab_duration (node_buffer (activeSources (webAudio (streamAudio default_options
             three_chunks [Elapse (1 / 10)] (initial default_options))) ! 0))
   \<and> map snd three_chunks_at_once = map snd three_chunks
   \<and> uninterrupted three_chunks_at_once []
   \<and> activeSources (webAudio (streamAudio default_options three_chunks_at_once []
         (initial default_options)))
       = activeSources (webAudio (streamAudio default_options three_chunks
         [Elapse (1 / 10)] (initial default_options)))"
proof -
  let ?srcs = "activeSources (webAudio (streamAudio default_options three_chunks
         [Elapse (1 / 10)] (initial default_options)))"
  have len: "length ?srcs = 2"
    by (simp add: example_schedule)
  have same: "map snd three_chunks_at_once = map snd three_chunks
      \<and> uninterrupted three_chunks_at_once []"
    by (simp add: three_chunks_at_once_def three_chunks_def uninterrupted_def stop_free_def)
  note inst = scheduling_contiguity [OF initial_audioContext uninterrupted_three_chunks,
      of default_options three_chunks_at_once "[]"]
  note starts = inst [THEN conjunct1, rule_format, of 0]
  note again = inst [THEN conjunct2, THEN conjunct2, THEN mp, OF same]
  have "0 < length ?srcs" "Suc 0 < length ?srcs"
    by (simp_all add: len)
  with starts have "node_startTime (?srcs ! Suc 0)
       = node_startTime (?srcs ! 0) + ab_duration (node_buffer (?srcs ! 0))"
    by blast
  with len initial_audioContext uninterrupted_three_chunks same again show ?thesis by blast
qed

lemma float32_elements_8:
  "length v = 8 \<Longrightarrow> length (float32_elements v) = 2 \<and> float32_elements v \<noteq> []"
  using length_float32_elements [of v] by auto

text \<open>
  C6 (amended). Scenario A. Take a \<open>streamAudio\<close> call whose stream is a single chunk of
  8 bytes, on a hook whose audio context exists and has sample rate 24000, during which
  \<open>stop\<close> is not called. The decoder yields exactly 2 samples and no leftover, exactly
  one buffer is scheduled, its duration is 2/24000 seconds, and its start time is the
  clock of the audio context at the moment of the call (which is 0 only if that clock
  reads 0).
\<close>

theorem scenario_single_chunk:
  assumes ctx: "audioContext (webAudio h) = Some ctx"
    and rate: "ctx_sampleRate ctx = 24000"
    and len: "length v = 8"
    and quiet: "uninterrupted [(cs, v)] final"
  shows "allBuffers (fst (streamAudio_run opts [(cs, v)] final h)) = [float32_elements v]
       \<and> length (float32_elements v) = 2
       \<and> leftover (fst (streamAudio_run opts [(cs, v)] final h)) = []
       \<and> activeSources (webAudio (streamAudio opts [(cs, v)] final h))
           = [\<lparr>node_buffer = \<lparr>ab_channel = float32_elements v, ab_sampleRate = 24000\<rparr>,
               node_startTime = ctx_currentTime ctx\<rparr>]
       \<and> ab_duration \<lparr>ab_channel = float32_elements v, ab_sampleRate = 24000\<rparr> = 2 / 24000"
proof -
  let ?h3 = "(resetState h)\<lparr>webAudio := (webAudio (resetState h))\<lparr>isAudioPlaying := True\<rparr>,
                 currentTime := 0\<rparr>"
  let ?l = "\<lparr>nextStartTime = web_getCurrentTime h, totalDuration = 0, allBuffers = [],
         leftover = [], source = None, renderTransitioned = isAudioTransitioned h,
         thrown = None\<rparr>"
  let ?k = "updatePlayingState True (during_wait opts cs ?h3)"
  let ?s = "(?l, ?k)"
  from quiet have q: "stop_free cs" "stop_free final"
    by (simp_all add: uninterrupted_def stop_free_append)
  have view: "session_view ?k
         = ((True, [], None, Some (ctx_sampleRate ctx)),
            (wavCalls h, duration h, False, False),
            map_option (\<lambda>a. (el_src a, el_canplay_once a)) (audioRef h))"
    by (simp add: session_view_first_wait [OF q(1)] ctx)
  then obtain k where k: "audioContext (webAudio (snd ?s)) = Some k" "ctx_sampleRate k = 24000"
    using rate by (cases "audioContext (webAudio ?k)") (simp_all add: session_view_def)
  from view have p: "isAudioPlaying (webAudio (snd ?s))"
    and srcs0: "activeSources (webAudio ?k) = []"
    and n: "\<not> isAudioReady ?k"
    by (simp_all add: session_view_def)
  let ?t = "process_chunk k v ?s"
  have run: "streamAudio_run opts [(cs, v)] final h
               = on_done opts (fst ?t, during_wait opts final (snd ?t))"
    by (simp add: streamAudio_run_eq stream_loop_Nil [OF k(1) p])
  have two: "length (float32_elements v) = 2" "float32_elements v \<noteq> []"
    using float32_elements_8 [OF len] by simp_all
  have rest: "drop (length v div 4 * 4) v = []"
    using len by simp
  have t0: "web_getCurrentTime h = ctx_currentTime ctx"
    using ctx by (simp add: web_getCurrentTime_def)
  have w: "session_view (during_wait opts final (snd ?t)) = session_view (snd ?t)"
    by (rule session_view_during_wait) (simp_all add: process_chunk_isAudioReady n q(2))
  have "allBuffers (fst (streamAudio_run opts [(cs, v)] final h)) = [float32_elements v]"
    using two by (simp add: run on_done_locals process_chunk_eq decode_eq Let_def)
  moreover have "leftover (fst (streamAudio_run opts [(cs, v)] final h)) = []"
    using two rest by (simp add: run on_done_locals process_chunk_eq decode_eq Let_def)
  moreover have "activeSources (webAudio (streamAudio opts [(cs, v)] final h))
           = [\<lparr>node_buffer = \<lparr>ab_channel = float32_elements v, ab_sampleRate = 24000\<rparr>,
               node_startTime = ctx_currentTime ctx\<rparr>]"
    using two k(2) t0 srcs0 activeSources_session_view [OF w]
    by (simp add: streamAudio_def run on_done_hook process_chunk_eq decode_eq Let_def)
  moreover have "ab_duration \<lparr>ab_channel = float32_elements v, ab_sampleRate = 24000\<rparr> = 2 / 24000"
    using two by (simp add: ab_duration_def)
  ultimately show ?thesis using two by simp
qed

theorem scenario_single_chunk_witness:
  "audioContext (webAudio (initial default_options))
     = Some \<lparr>ctx_sampleRate = 24000, ctx_currentTime = 0, ctx_running = True\<rparr>
   \<and> ctx_sampleRate \<lparr>ctx_sampleRate = 24000, ctx_currentTime = 0, ctx_running = True\<rparr> = 24000
   \<and> length chunk8 = 8
   \<and> uninterrupted [([Elapse (1 / 4), Tick], chunk8)] []
   \<and> map node_startTime (activeSources (webAudio (streamAudio default_options
          [([Elapse (1 / 4), Tick], chunk8)] [] (initial default_options)))) = [0]"
proof -
  have r: "ctx_sampleRate \<lparr>ctx_sampleRate = 24000, ctx_currentTime = 0, ctx_running = True\<rparr> = 24000"
    by simp
  have l: "length chunk8 = 8" by (simp add: chunk8_def)
  have q: "uninterrupted [([Elapse (1 / 4), Tick], chunk8)] []"
    by (simp add: uninterrupted_def stop_free_def)
  from scenario_single_chunk [OF initial_audioContext r l q, of default_options]
    initial_audioContext r l q
  show ?thesis by simp
qed

text \<open>
  On a hook that has been mounted for 5 seconds the single buffer is scheduled at 5, not at 0.
\<close>

theorem start_time_counterexample:
  "map node_startTime (activeSources (webAudio
      (run default_options (initial default_options)
         [Control (Elapse 5), StreamAudio [([], chunk8)] []])))
     = [5]
   \<and> map node_startTime (activeSources (webAudio
      (run default_options (initial default_options)
         [Control (Elapse 5), StreamAudio [([], chunk8)] []])))
     \<noteq> [0]"
  by (simp add: eval_defs)

section \<open>Accumulation\<close>

lemma on_done_finalized:
  fixes opts s c
  defines "acc \<equiv> \<lparr>ab_channel = concat (allBuffers (fst s)), ab_sampleRate = ctx_sampleRate c\<rparr>"
  assumes "enableTransition opts" and "audioContext (webAudio (snd s)) = Some c"
    and "concat (allBuffers (fst s)) \<noteq> []"
  shows "wavCalls (snd (on_done opts s)) = wavCalls (snd s) @ [acc]"
    and "duration (snd (on_done opts s)) = ab_duration acc"
    and "originalBuffer (webAudio (snd (on_done opts s))) = Some acc"
    and "thrown (fst (on_done opts s)) = thrown (fst s)"
    and "map_option el_src (audioRef (snd (on_done opts s)))
           = map_option (\<lambda>a. Some acc) (audioRef (snd s))"
    and "map_option el_canplay_once (audioRef (snd (on_done opts s)))
           = map_option (\<lambda>a. True) (audioRef (snd s))"
  using assms(2-)
  by (simp_all add: on_done_def finalize_eq Let_def acc_def addEndedListener_def
      setupAudioListeners_def setAudioSource_def option.map_comp comp_def
      split: option.split)

text \<open>
  C5 (amended). Accumulation completeness. Take a \<open>streamAudio\<close> call on a hook whose
  audio context exists, during which \<open>stop\<close> is not called. If the transition is enabled
  and the stream carries at least one whole sample (4 bytes), then when the stream is done
  exactly one buffer is handed to the WAV encoder in that call; it is the in-order
  concatenation of the decoded non-empty chunks, its number of samples is the sum of
  theirs, which is the number of bytes received divided by 4, and the published duration
  is that number over the sample rate. With the transition disabled no buffer is built
  and the duration is left as it was.
\<close>

theorem accumulation_completeness:
  fixes opts stream final h ctx ls h' acc
  assumes ctx: "audioContext (webAudio h) = Some ctx"
    and quiet: "uninterrupted stream final"
  defines "ls \<equiv> fst (streamAudio_run opts stream final h)"
    and "h' \<equiv> streamAudio opts stream final h"
  defines "acc \<equiv> \<lparr>ab_channel = concat (allBuffers ls), ab_sampleRate = ctx_sampleRate ctx\<rparr>"
  shows "(enableTransition opts \<and> 4 \<le> length (concat (map snd stream)) \<longrightarrow>
            wavCalls h' = wavCalls h @ [acc]
          \<and> originalBuffer (webAudio h') = Some acc
          \<and> length (ab_channel acc) = sum_list (map length (allBuffers ls))
          \<and> length (ab_channel acc) = length (concat (map snd stream)) div 4
          \<and> duration h' = real (length (ab_channel acc)) / real (ctx_sampleRate ctx))
       \<and> (\<not> enableTransition opts \<longrightarrow> wavCalls h' = wavCalls h \<and> duration h' = duration h)"
proof (intro conjI impI)
  let ?r = "ctx_sampleRate ctx"
  let ?P = "\<lambda>(received :: byte list) (s :: locals \<times> hook).
      wavCalls (snd s) = wavCalls h \<and> duration (snd s) = duration h
      \<and> map_option ctx_sampleRate (audioContext (webAudio (snd s))) = Some ?r
      \<and> 4 * length (concat (allBuffers (fst s))) + length (leftover (fst s)) = length received
      \<and> length (leftover (fst s)) \<le> 3"
  let ?l = "\<lparr>nextStartTime = ctx_currentTime ctx, totalDuration = 0, allBuffers = [],
      leftover = [], source = None, renderTransitioned = isAudioTransitioned h,
      thrown = None\<rparr>"
  have init: "?P [] (?l, k)"
    if "session_view k
          = ((True, [], None, Some ?r), (wavCalls h, duration h, False, False),
             map_option (\<lambda>a. (el_src a, el_canplay_once a)) (audioRef h))" for k
    using that by (simp add: session_view_def)
  have chunk: "?P (received @ v) (process_chunk c v s)" if p: "?P received s" for received c v s
  proof -
    let ?n = "length (leftover (fst s)) + length v"
    have facts: "wavCalls (snd (process_chunk c v s)) = wavCalls (snd s)"
      "duration (snd (process_chunk c v s)) = duration (snd s)"
      by (simp_all add: process_chunk_eq Let_def)
    have count: "4 * length (concat (allBuffers (fst (process_chunk c v s))))
          + length (leftover (fst (process_chunk c v s)))
        = 4 * length (concat (allBuffers (fst s))) + (4 * (?n div 4) + ?n mod 4)"
      by (simp add: process_chunk_samples process_chunk_leftover length_fst_decode
          length_snd_decode)
    have small: "length (leftover (fst (process_chunk c v s))) \<le> 3"
      by (simp add: process_chunk_leftover length_snd_decode)
    from p facts count small show ?thesis
      by (simp add: process_chunk_audioContext)
  qed
  have wait: "?P received (l, k')"
    if "?P received (l, k)" "session_view k' = session_view k" for received l k k'
    using that by (simp add: session_view_def)
  {
    assume off: "\<not> enableTransition opts"
    let ?Q = "\<lambda>s :: locals \<times> hook. wavCalls (snd s) = wavCalls h \<and> duration (snd s) = duration h"
    have "?Q (streamAudio_run opts stream final h)"
    proof (rule streamAudio_run_rule [where P = ?P and Q = ?Q, OF ctx quiet])
      fix k
      assume "session_view k
          = ((True, [], None, Some ?r), (wavCalls h, duration h, False, False),
             map_option (\<lambda>a. (el_src a, el_canplay_once a)) (audioRef h))"
      then show "?P [] (?l, k)" by (rule init)
    next
      fix received c v s
      assume "?P received s"
      then show "?P (received @ v) (process_chunk c v s)" by (rule chunk)
    next
      fix received l k k'
      assume "?P received (l, k)" "session_view k' = session_view k"
      then show "?P received (l, k')" by (rule wait)
    next
      fix s
      assume "?P (concat (map snd stream)) s"
      then show "?Q (on_done opts s)"
        using off by (simp add: on_done_def addEndedListener_def split: option.split)
    next
      fix s
      assume "?P [] s"
      then show "?Q s" by simp
    qed
    then show "wavCalls h' = wavCalls h" "duration h' = duration h"
      by (simp_all add: h'_def streamAudio_def)
  }
  assume on: "enableTransition opts \<and> 4 \<le> length (concat (map snd stream))"
  then have ne: "stream \<noteq> []" by auto
  let ?Q = "\<lambda>s :: locals \<times> hook. wavCalls (snd s) = wavCalls h @
              [\<lparr>ab_channel = concat (allBuffers (fst s)), ab_sampleRate = ?r\<rparr>]
            \<and> originalBuffer (webAudio (snd s))
                = Some \<lparr>ab_channel = concat (allBuffers (fst s)), ab_sampleRate = ?r\<rparr>
            \<and> duration (snd s)
                = ab_duration \<lparr>ab_channel = concat (allBuffers (fst s)), ab_sampleRate = ?r\<rparr>"
  have q: "?Q (streamAudio_run opts stream final h)"
  proof (rule streamAudio_run_rule [where P = ?P and Q = ?Q, OF ctx quiet])
    fix k
    assume "session_view k
        = ((True, [], None, Some ?r), (wavCalls h, duration h, False, False),
           map_option (\<lambda>a. (el_src a, el_canplay_once a)) (audioRef h))"
    then show "?P [] (?l, k)" by (rule init)
  next
    fix received c v s
    assume "?P received s"
    then show "?P (received @ v) (process_chunk c v s)" by (rule chunk)
  next
    fix received l k k'
    assume "?P received (l, k)" "session_view k' = session_view k"
    then show "?P received (l, k')" by (rule wait)
  next
    fix s
    assume p: "?P (concat (map snd stream)) s"
    then obtain c where c: "audioContext (webAudio (snd s)) = Some c" "ctx_sampleRate c = ?r"
      by (cases "audioContext (webAudio (snd s))") simp_all
    from p on have "4 \<le> 4 * length (concat (allBuffers (fst s))) + length (leftover (fst s))"
      and "length (leftover (fst s)) \<le> 3"
      by simp_all
    then have pos: "0 < length (concat (allBuffers (fst s)))"
      by arith
    have some: "concat (allBuffers (fst s)) \<noteq> []"
    proof
      assume "concat (allBuffers (fst s)) = []"
      with pos show False by simp
    qed
    from on have e: "enableTransition opts" by simp
    show "?Q (on_done opts s)"
      using p c(2) on_done_finalized(1-3) [OF e c(1) some]
      by (simp add: on_done_locals)
  next
    fix s
    assume "stream = []"
    with ne show "?Q s" by simp
  qed
  then show "wavCalls h' = wavCalls h @ [acc]"
    and "originalBuffer (webAudio h') = Some acc"
    and "duration h' = real (length (ab_channel acc)) / real ?r"
    by (simp_all add: h'_def ls_def acc_def streamAudio_def ab_duration_def)
  show "length (ab_channel acc) = sum_list (map length (allBuffers ls))"
    by (simp add: acc_def length_concat)
  have c: "audioContext (webAudio h) \<noteq> None" using ctx by simp
  have cons: "4 * length (concat (allBuffers ls)) + length (leftover ls)
                = length (concat (map snd stream))"
    using streamAudio_run_count [OF c quiet, of opts] by (simp add: ls_def)
  have small: "length (leftover ls) \<le> 3"
    using streamAudio_run_leftover [OF c quiet, of opts] by (simp add: ls_def)
  from cons small show "length (ab_channel acc) = length (concat (map snd stream)) div 4"
    by (simp add: acc_def)
qed

theorem accumulation_completeness_witness:
  "audioContext (webAudio (initial default_options))
     = Some \<lparr>ctx_sampleRate = 24000, ctx_currentTime = 0, ctx_running = True\<rparr>
   \<and> uninterrupted three_chunks [Elapse (1 / 10)]
   \<and> enableTransition default_options \<and> 4 \<le> length (concat (map snd three_chunks))
   \<and> wavCalls (streamAudio default_options three_chunks [Elapse (1 / 10)]
        (initial default_options))
       = wavCalls (initial default_options) @
         [\<lparr>ab_channel = concat (allBuffers (fst (streamAudio_run default_options three_chunks
              [Elapse (1 / 10)] (initial default_options)))), ab_sampleRate = 24000\<rparr>]
   \<and> length (concat (allBuffers (fst (streamAudio_run default_options three_chunks
              [Elapse (1 / 10)] (initial default_options))))) = 4"
proof -
  have on: "enableTransition default_options \<and> 4 \<le> length (concat (map snd three_chunks))"
    by (simp add: default_options_def three_chunks_def chunk3_def chunk5_def chunk8_def)
  note inst = accumulation_completeness [OF initial_audioContext uninterrupted_three_chunks,
      of default_options, THEN conjunct1, THEN mp, OF on]
  have "length (concat (map snd three_chunks)) div 4 = 4"
    by (simp add: three_chunks_def chunk3_def chunk5_def chunk8_def)
  with on inst initial_audioContext uninterrupted_three_chunks show ?thesis by simp
qed

text \<open>
  With the transition disabled a stream that ends leaves no accumulated buffer and no
  duration; so does an empty stream, since the loop body is never entered.
\<close>

theorem accumulation_counterexample:
  "wavCalls (streamAudio (default_options\<lparr>enableTransition := False\<rparr>) [([], chunk8)] []
      (initial (default_options\<lparr>enableTransition := False\<rparr>))) = []
   \<and> duration (streamAudio (default_options\<lparr>enableTransition := False\<rparr>) [([], chunk8)] []
      (initial (default_options\<lparr>enableTransition := False\<rparr>))) = 0
   \<and> wavCalls (streamAudio default_options [] [] (initial default_options)) = []"
  by (simp add: eval_defs)

text \<open>
  A stream of three bytes, with the transition enabled: when it is done, the call rejects
  and nothing has been built.
\<close>

lemma zero_sample_stream_rejects:
  "thrown (fst (streamAudio_run default_options [([], chunk3)] [] (initial default_options)))
     = Some NotSupportedError
   \<and> wavCalls (streamAudio default_options [([], chunk3)] [] (initial default_options)) = []
   \<and> duration (streamAudio default_options [([], chunk3)] [] (initial default_options)) = 0"
  by (simp add: eval_defs finalize_throws)

section \<open>The controls\<close>

lemma run_append: "run opts h (xs @ ys) = run opts (run opts h xs) ys"
  by (induction xs arbitrary: h) simp_all


lemma float32_elements_zeros: "float32_elements (replicate (4 * n) 0) = replicate n 0"
proof (induction n)
  case 0
  show ?case by simp
next
  case (Suc n)
  have "replicate (4 * Suc n) (0 :: byte) = 0 # 0 # 0 # 0 # replicate (4 * n) 0"
    by (simp add: numeral_eq_Suc)
  then show ?case
    by (simp add: Suc float32_of_bytes_def)
qed

lemma decode_one_second: "decode [] one_second = (silence, [])"
proof -
  have "one_second = replicate (4 * 24000) 0"
    by (simp add: one_second_def)
  with float32_elements_zeros [of 24000] have "float32_elements one_second = silence"
    by (simp only: silence_def)
  moreover have "drop (length one_second div 4 * 4) one_second = []"
    by (simp add: one_second_def)
  ultimately show ?thesis
    by (simp add: decode_eq)
qed

lemma silence_facts: "length silence = 24000" "silence \<noteq> []"
  by (auto simp add: silence_def)

lemmas session_defs =
  run_defs decode_one_second silence_facts silence_stream_def silence_buffer_def silence_node_def
  handed_over_def

lemma streamed_eq:
  "streamed =
     \<lparr>isPlaying = True, isAudioReady = False, isAudioTransitioned = False,
      currentTime = 3 / 5, duration = 1, isAudioSuspended = False,
      webAudio = \<lparr>audioContext = Some \<lparr>ctx_sampleRate = 24000, ctx_currentTime = 13 / 20,
                                        ctx_running = True\<rparr>,
                  originalBuffer = Some silence_buffer, activeSources = [silence_node],
                  isAudioPlaying = True\<rparr>,
      audioRef = Some \<lparr>el_src = Some silence_buffer, el_currentTime = 0,
                       el_paused = True, el_canplay_once = True, el_onended = [False]\<rparr>,
      endedListeners = [(silence_node, False)], wavCalls = [silence_buffer]\<rparr>"
  by (simp add: streamed_def streaming_session_def session_defs)

lemma run_session:
  "run default_options (initial default_options) session
     = handed_over (13 / 20) (3 / 5) (3 / 5) True False [(silence_node, False)]"
  using streamed_eq
  by (simp add: session_def run_append streamed_def) (simp add: session_defs)


lemma run_after_handoff:
  "run default_options (handed_over (13 / 20) (3 / 5) (3 / 5) True False [(silence_node, False)])
       after_handoff
     = handed_over (17 / 20) (7 / 10) (3 / 4) True False []"
  by (simp add: after_handoff_def session_defs)

lemma step_Stop_handed_over:
  "step default_options (Control Stop) (handed_over (17 / 20) (7 / 10) (3 / 4) True False [])
     = handed_over (17 / 20) (7 / 10) (7 / 10) False True []"
  by (simp add: session_defs)

lemma stop_handed_over:
  "stop (handed_over (17 / 20) (7 / 10) (3 / 4) True False [])
     = handed_over (17 / 20) (7 / 10) 0 False True []"
  by (simp add: session_defs)

lemma step_Play_handed_over:
  "step default_options (Control Play) (handed_over (17 / 20) (7 / 10) (7 / 10) False True [])
     = handed_over (17 / 20) (7 / 10) (7 / 10) True False []"
  by (simp add: session_defs)

lemma step_Pause_handed_over:
  "step default_options (Control Pause) (handed_over (17 / 20) (7 / 10) (3 / 4) True False [])
     = handed_over (17 / 20) (7 / 10) (7 / 10) False True []"
  by (simp add: session_defs)

lemma stop_stop: "stop (stop h) = stop h"
  by (simp add: stop_def stopAudio_def stopStream_def updatePlayingState_def split: option.split)

lemma stop_funpow: "(stop ^^ Suc n) h = stop h"
  by (induction n) (simp_all add: stop_stop)

lemma isPlaying_stop: "isPlaying (stop h) = False"
  by (simp add: stop_def updatePlayingState_def)

lemma isPlaying_transition_effect:
  "isPlaying (transition_effect opts h) = isPlaying h"
  by (simp add: transition_effect_def Let_def playAudio_def stopStream_def updatePlayingState_def
      html5_setCurrentTime_def)

lemma isPlaying_rerender: "isPlaying (rerender opts before after) = isPlaying after"
  by (simp add: rerender_def render_eq isPlaying_transition_effect)

lemma isPlaying_step_Stop: "isPlaying (step opts (Control Stop) h) = False"
  by (simp add: step_def isPlaying_rerender isPlaying_stop)

lemma isPlaying_run_Stop: "isPlaying (run opts h (replicate (Suc n) (Control Stop))) = False"
proof (induction n arbitrary: h)
  case 0
  show ?case by (simp add: isPlaying_step_Stop)
next
  case (Suc n)
  from Suc [of "step opts (Control Stop) h"] show ?case by simp
qed

text \<open>
  C8. Idempotent stop. \<open>stop\<close> is a total function of the state: it raises nothing,
  whatever the active nodes are, because \<open>stopStream\<close> swallows what a node throws.
  After any number of calls in a row the play-state is false and the state is the same
  as after one call; the play-state is also false when React renders between the calls.
  Before the transition the result of \<open>stop\<close> does not depend on which nodes were
  active, if any: the list of active nodes is emptied and the two playing flags are
  cleared.
\<close>

theorem stop_idempotent:
  "isPlaying ((stop ^^ Suc n) h) = False
   \<and> (stop ^^ Suc n) h = stop h
   \<and> isPlaying (run opts h (replicate (Suc n) (Control Stop))) = False
   \<and> stop (h\<lparr>isAudioTransitioned := False,
              webAudio := (webAudio h)\<lparr>activeSources := srcs\<rparr>\<rparr>)
       = h\<lparr>isAudioTransitioned := False, isPlaying := False,
           webAudio := (webAudio h)\<lparr>activeSources := [], isAudioPlaying := False\<rparr>\<rparr>"
proof (intro conjI)
  show same: "(stop ^^ Suc n) h = stop h"
    by (rule stop_funpow)
  show "isPlaying ((stop ^^ Suc n) h) = False"
    by (simp only: same isPlaying_stop)
  show "isPlaying (run opts h (replicate (Suc n) (Control Stop))) = False"
    by (rule isPlaying_run_Stop)
  show "stop (h\<lparr>isAudioTransitioned := False,
              webAudio := (webAudio h)\<lparr>activeSources := srcs\<rparr>\<rparr>)
       = h\<lparr>isAudioTransitioned := False, isPlaying := False,
           webAudio := (webAudio h)\<lparr>activeSources := [], isAudioPlaying := False\<rparr>\<rparr>"
    by (simp add: stop_def stopStream_def updatePlayingState_def)
qed

lemma react_state_rewind: "react_state (rewind seconds h) = react_state h"
  by (simp add: rewind_eq react_state_def)

lemma step_Rewind: "step opts (Control (Rewind seconds)) h = rewind seconds h"
  by (simp add: step_def rerender_def react_state_rewind)

text \<open>
  C9. Rewind. Unless the hook has transitioned, \<open>rewind\<close> changes nothing at all. After
  the transition it sets the position of the audio element to its position minus the
  given seconds, but not below 0, starts the element if the play-state is playing, and
  changes nothing else; it sets no state, so no render follows and this is also the state
  after the event.
\<close>

theorem rewind_behaviour:
  "(\<not> isAudioTransitioned h \<longrightarrow>
        rewind seconds h = h \<and> step opts (Control (Rewind seconds)) h = h)
   \<and> (isAudioTransitioned h \<longrightarrow>
        rewind seconds h =
          h\<lparr>audioRef := map_option
               (\<lambda>a. a\<lparr>el_currentTime := max 0 (el_currentTime a - seconds),
                      el_paused := (el_paused a \<and> \<not> isPlaying h)\<rparr>) (audioRef h)\<rparr>
        \<and> step opts (Control (Rewind seconds)) h = rewind seconds h)"
proof (intro conjI impI)
  assume "\<not> isAudioTransitioned h"
  then show same: "rewind seconds h = h"
    by (simp add: rewind_eq)
  then show "step opts (Control (Rewind seconds)) h = h"
    by (simp add: step_Rewind)
next
  assume "isAudioTransitioned h"
  then show "rewind seconds h =
          h\<lparr>audioRef := map_option
               (\<lambda>a. a\<lparr>el_currentTime := max 0 (el_currentTime a - seconds),
                      el_paused := (el_paused a \<and> \<not> isPlaying h)\<rparr>) (audioRef h)\<rparr>"
    by (simp add: rewind_eq)
  show "step opts (Control (Rewind seconds)) h = rewind seconds h"
    by (rule step_Rewind)
qed

theorem rewind_behaviour_witness:
  "\<not> isAudioTransitioned (initial default_options)
   \<and> rewind 10 (initial default_options) = initial default_options
   \<and> isAudioTransitioned (handed_over (17 / 20) (7 / 10) (3 / 4) True False [])
   \<and> rewind 10 (handed_over (17 / 20) (7 / 10) (3 / 4) True False [])
       = handed_over (17 / 20) (7 / 10) 0 True False []
   \<and> rewind (1 / 20) (handed_over (17 / 20) (7 / 10) (3 / 4) False True [])
       = handed_over (17 / 20) (7 / 10) (7 / 10) False True []"
proof -
  have n: "\<not> isAudioTransitioned (initial default_options)"
    by (simp add: initial_def)
  have t: "isAudioTransitioned (handed_over c p x b q ls)" for c p x b q ls
    by (simp add: handed_over_def)
  note a = rewind_behaviour [of "initial default_options" 10 default_options,
      THEN conjunct1, THEN mp, OF n, THEN conjunct1]
  note b = rewind_behaviour [of "handed_over (17 / 20) (7 / 10) (3 / 4) True False []" 10
      default_options, THEN conjunct2, THEN mp, OF t, THEN conjunct1]
  note c = rewind_behaviour [of "handed_over (17 / 20) (7 / 10) (3 / 4) False True []" "1 / 20"
      default_options, THEN conjunct2, THEN mp, OF t, THEN conjunct1]
  have b': "rewind 10 (handed_over (17 / 20) (7 / 10) (3 / 4) True False [])
       = handed_over (17 / 20) (7 / 10) 0 True False []"
    by (subst b) (simp add: handed_over_def)
  have c': "rewind (1 / 20) (handed_over (17 / 20) (7 / 10) (3 / 4) False True [])
       = handed_over (17 / 20) (7 / 10) (7 / 10) False True []"
    by (subst c) (simp add: handed_over_def)
  from n a t b' c' show ?thesis by blast
qed

section \<open>The transition\<close>

text \<open>
  The rule for a loop that may be interrupted: a property kept by the loop body, by the
  waits and by what is done at the end of the stream holds when the call returns.
\<close>

lemma stream_loop_preserves:
  assumes init: "P s"
    and waits: "\<forall>cs \<in> set (map fst rest). W cs" "W final"
    and chunk: "\<And>ctx v s. P s \<Longrightarrow> P (process_chunk ctx v s)"
    and wait: "\<And>cs s. W cs \<Longrightarrow> P s \<Longrightarrow> P (fst s, during_wait opts cs (snd s))"
    and finish: "\<And>s. P s \<Longrightarrow> P (on_done opts s)"
  shows "P (stream_loop opts v rest final s)"
  using init waits(1)
proof (induction rest arbitrary: v s)
  case Nil
  show ?case
  proof (cases "audioContext (webAudio (snd s))")
    case None
    then show ?thesis
      by (subst stream_loop.simps) (simp add: Nil.prems(1))
  next
    case (Some c)
    let ?t = "process_chunk c v s"
    have p1: "P ?t" using Nil.prems(1) by (rule chunk)
    then have "P (fst ?t, during_wait opts final (snd ?t))"
      using waits(2) wait by blast
    then have p2: "P (on_done opts (fst ?t, during_wait opts final (snd ?t)))"
      by (rule finish)
    show ?thesis
      by (subst stream_loop.simps)
         (simp add: Some Let_def Nil.prems(1) p1 p2 split: option.split)
  qed
next
  case (Cons x rest)
  obtain cs nxt where x: "x = (cs, nxt)" by (cases x)
  from Cons.prems(2) have w: "W cs" and ws: "\<forall>cs \<in> set (map fst rest). W cs"
    by (simp_all add: x)
  show ?case
  proof (cases "audioContext (webAudio (snd s))")
    case None
    then show ?thesis
      by (subst stream_loop.simps) (simp add: Cons.prems(1))
  next
    case (Some c)
    let ?t = "process_chunk c v s"
    have p1: "P ?t" using Cons.prems(1) by (rule chunk)
    with w have "P (fst ?t, during_wait opts cs (snd ?t))"
      by (rule wait)
    then have p2: "P (stream_loop opts nxt rest final (fst ?t, during_wait opts cs (snd ?t)))"
      using ws by (rule Cons.IH)
    show ?thesis
      by (subst stream_loop.simps)
         (simp add: Some x Let_def Cons.prems(1) p1 p2 split: option.split)
  qed
qed

lemma streamAudio_preserves:
  assumes init: "\<And>l. P (l, (resetState h)\<lparr>webAudio := (webAudio (resetState h))
                          \<lparr>isAudioPlaying := True\<rparr>, currentTime := 0\<rparr>)"
    and waits: "\<forall>cs \<in> set (map fst stream). W cs" "W final"
    and playing: "\<And>s. P s \<Longrightarrow> P (fst s, updatePlayingState True (snd s))"
    and chunk: "\<And>ctx v s. P s \<Longrightarrow> P (process_chunk ctx v s)"
    and wait: "\<And>cs s. W cs \<Longrightarrow> P s \<Longrightarrow> P (fst s, during_wait opts cs (snd s))"
    and finish: "\<And>s. P s \<Longrightarrow> P (on_done opts s)"
  shows "P (streamAudio_run opts stream final h)"
proof -
  let ?h3 = "(resetState h)\<lparr>webAudio := (webAudio (resetState h))\<lparr>isAudioPlaying := True\<rparr>,
                             currentTime := 0\<rparr>"
  let ?l = "\<lparr>nextStartTime = web_getCurrentTime h, totalDuration = 0, allBuffers = [],
         leftover = [], source = None, renderTransitioned = isAudioTransitioned h,
         thrown = None\<rparr>"
  have start: "P (?l, updatePlayingState True (during_wait opts cs ?h3))" if "W cs" for cs
  proof -
    have "P (fst (?l, ?h3), during_wait opts cs (snd (?l, ?h3)))"
      using that init by (rule wait)
    from playing [OF this] show ?thesis by simp
  qed
  show ?thesis
  proof (cases stream)
    case Nil
    with start [OF waits(2)] show ?thesis
      by (simp add: streamAudio_run_eq)
  next
    case (Cons x rest)
    obtain cs v where x: "x = (cs, v)" by (cases x)
    from waits(1) have w: "W cs" and ws: "\<forall>cs \<in> set (map fst rest). W cs"
      by (simp_all add: Cons x)
    have "P (stream_loop opts v rest final (?l, updatePlayingState True (during_wait opts cs ?h3)))"
      using start [OF w] ws waits(2) chunk wait finish
      by (rule stream_loop_preserves [where P = P and W = W])
    then show ?thesis
      by (simp add: streamAudio_run_eq Cons x)
  qed
qed

lemma isAudioTransitioned_control_handler:
  "isAudioTransitioned (control_handler c h) = isAudioTransitioned h"
  by (cases c)
     (simp_all add: source_ended_keeps element_ended_keeps,
      simp_all add: tick_def elapse_def stop_def play_def pause_def rewind_eq
        handleStateChange_def stopAudio_def stopStream_def playAudio_def playStream_def pauseAudio_def pauseStream_def
        updatePlayingState_def split: option.split)

lemma during_wait_not_transitioned:
  "\<not> isAudioReady h \<Longrightarrow> \<not> isAudioTransitioned h \<Longrightarrow>
     \<not> isAudioTransitioned (during_wait opts cs h)"
proof (induction cs arbitrary: h)
  case Nil
  then show ?case by simp
next
  case (Cons c cs)
  have step: "control_step opts c h = control_handler c h"
    using Cons.prems(1) by (rule control_step_not_ready)
  have "\<not> isAudioReady (control_handler c h)" "\<not> isAudioTransitioned (control_handler c h)"
    using Cons.prems by (simp_all add: isAudioReady_control_handler
        isAudioTransitioned_control_handler)
  from Cons.IH [OF this] show ?case by (simp add: step)
qed

lemma resetState_flags:
  "\<not> isAudioReady (resetState h)" "\<not> isAudioTransitioned (resetState h)"
  by (simp_all add: resetState_def web_resetState_def stopStream_def updatePlayingState_def
      Let_def)

text \<open>
  However a \<open>streamAudio\<close> call is interleaved with ticks, time and controls, it returns
  with both flags cleared.
\<close>

lemma streamAudio_flags:
  "\<not> isAudioReady (streamAudio opts stream final h)
   \<and> \<not> isAudioTransitioned (streamAudio opts stream final h)"
proof -
  let ?P = "\<lambda>s :: locals \<times> hook. \<not> isAudioReady (snd s) \<and> \<not> isAudioTransitioned (snd s)"
  have "?P (streamAudio_run opts stream final h)"
  proof (rule streamAudio_preserves [where P = ?P and W = "\<lambda>cs. True"])
    fix cs and s :: "locals \<times> hook"
    assume "?P s"
    then show "?P (fst s, during_wait opts cs (snd s))"
      by (simp add: during_wait_not_ready during_wait_not_transitioned)
  qed (simp_all add: resetState_flags updatePlayingState_def process_chunk_eq Let_def
        on_done_hook)
  then show ?thesis by (simp add: streamAudio_def)
qed

lemma step_StreamAudio:
  "step opts (StreamAudio stream final) h = streamAudio opts stream final h"
  using streamAudio_flags [of opts stream final h]
  by (simp add: step_def rerender_not_ready)

lemma isAudioTransitioned_transition_effect:
  "isAudioTransitioned h \<Longrightarrow> isAudioTransitioned (transition_effect opts h)"
  by (simp add: transition_effect_def Let_def playAudio_def stopStream_def updatePlayingState_def
      html5_setCurrentTime_def)

lemma isAudioTransitioned_handler:
  "\<not> is_StreamAudio e \<Longrightarrow> isAudioTransitioned (handler opts e h) = isAudioTransitioned h"
  by (cases e) (simp_all add: canplay_def isAudioTransitioned_control_handler split: option.split)

lemma step_stays_transitioned:
  "\<not> is_StreamAudio e \<Longrightarrow> isAudioTransitioned h \<Longrightarrow> isAudioTransitioned (step opts e h)"
  by (simp add: step_def rerender_def render_eq isAudioTransitioned_transition_effect
      isAudioTransitioned_handler)

lemma transitionState_Transitioned:
  "transitionState h = Transitioned \<longleftrightarrow> isAudioTransitioned h"
  by (simp add: transitionState_def)

lemma entries_after_transition:
  "isAudioTransitioned h \<Longrightarrow> \<forall>e \<in> set es. \<not> is_StreamAudio e \<Longrightarrow> entries opts h es = 0"
proof (induction es arbitrary: h)
  case Nil
  show ?case by simp
next
  case (Cons e es)
  then have "isAudioTransitioned (step opts e h)"
    by (simp add: step_stays_transitioned)
  with Cons show ?case
    by (simp add: transitionState_Transitioned)
qed

lemma entries_le_1: "\<forall>e \<in> set es. \<not> is_StreamAudio e \<Longrightarrow> entries opts h es \<le> 1"
proof (induction es arbitrary: h)
  case Nil
  show ?case by simp
next
  case (Cons e es)
  show ?case
  proof (cases "isAudioTransitioned (step opts e h)")
    case True
    with Cons.prems have "entries opts (step opts e h) es = 0"
      by (simp add: entries_after_transition)
    then show ?thesis by simp
  next
    case False
    with Cons.IH [of "step opts e h"] Cons.prems show ?thesis
      by (simp add: transitionState_Transitioned)
  qed
qed

text \<open>
  C4. Transition exactly-once and terminality. No event other than a new \<open>streamAudio\<close>
  call leaves \<open>Transitioned\<close>; along any run without such a call \<open>Transitioned\<close> is
  entered at most once; and a new \<open>streamAudio\<close> call, whatever happens while it reads
  its stream, ends in \<open>Streaming\<close> with the ready flag cleared.
\<close>

theorem transition_once_and_terminal:
  "(\<not> is_StreamAudio e \<and> transitionState h = Transitioned \<longrightarrow>
       transitionState (step opts e h) = Transitioned)
   \<and> ((\<forall>e \<in> set es. \<not> is_StreamAudio e) \<longrightarrow> entries opts h es \<le> 1)
   \<and> transitionState (step opts (StreamAudio stream final) h) = Streaming
   \<and> \<not> isAudioReady (step opts (StreamAudio stream final) h)"
proof (intro conjI impI)
  show "transitionState (step opts e h) = Transitioned"
    if "\<not> is_StreamAudio e \<and> transitionState h = Transitioned"
    using that by (simp add: transitionState_Transitioned step_stays_transitioned)
  show "entries opts h es \<le> 1" if "\<forall>e \<in> set es. \<not> is_StreamAudio e"
    using that by (rule entries_le_1)
  have reset: "\<not> isAudioReady (streamAudio opts stream final h)"
    "\<not> isAudioTransitioned (streamAudio opts stream final h)"
    using streamAudio_flags [of opts stream final h] by simp_all
  show "transitionState (step opts (StreamAudio stream final) h) = Streaming"
    using reset by (simp add: step_StreamAudio transitionState_def)
  show "\<not> isAudioReady (step opts (StreamAudio stream final) h)"
    using reset by (simp add: step_StreamAudio)
qed

theorem transition_once_and_terminal_witness:
  "transitionState (handed_over (13 / 20) (3 / 5) (3 / 5) True False [(silence_node, False)])
     = Transitioned
   \<and> transitionState (step default_options (Control SourceEnded)
        (handed_over (13 / 20) (3 / 5) (3 / 5) True False [(silence_node, False)]))
       = Transitioned
   \<and> entries default_options streamed (CanPlay # after_handoff @ [Control Stop]) \<le> 1"
proof -
  let ?h = "handed_over (13 / 20) (3 / 5) (3 / 5) True False [(silence_node, False)]"
  have t: "transitionState ?h = Transitioned"
    by (simp add: transitionState_def handed_over_def)
  have e: "\<not> is_StreamAudio (Control SourceEnded)" by simp
  have es: "\<forall>e \<in> set (CanPlay # after_handoff @ [Control Stop]). \<not> is_StreamAudio e"
    by (simp add: after_handoff_def)
  note a = transition_once_and_terminal [of "Control SourceEnded" ?h
      default_options "[]" "[]" "[]", THEN conjunct1, THEN mp, OF conjI, OF e t]
  note b = transition_once_and_terminal [of "Control SourceEnded" streamed
      default_options "CanPlay # after_handoff @ [Control Stop]" "[]" "[]",
      THEN conjunct2, THEN conjunct1, THEN mp, OF es]
  from t a b show ?thesis by blast
qed










text \<open>
  C10. After the transition \<open>stop\<close> itself sets the position of the audio element to 0,
  but where it changes \<open>isPlaying\<close> React renders again, the transition effect runs, and
  the effect seeks the element back to the published \<open>currentTime\<close>. In the session,
  continued by the \<open>ended\<close> listener of the stopped node, \<open>play\<close>, a tick after 100 ms
  and another 50 ms, the element is at 3/4 when \<open>stop\<close> is called, at 0 when \<open>stop\<close>
  returns, and at 7/10 after the render; \<open>play\<close> then resumes from 7/10. After
  \<open>pause\<close> the element is at 7/10 as well, not at the paused position 3/4.
\<close>

theorem stop_then_play_resumes:
  "html5_getCurrentTime (run default_options (initial default_options)
       (session @ after_handoff)) = 3 / 4
   \<and> html5_getCurrentTime (stop (run default_options (initial default_options)
       (session @ after_handoff))) = 0
   \<and> run default_options (initial default_options)
         (session @ after_handoff @ [Control Stop])
       = handed_over (17 / 20) (7 / 10) (7 / 10) False True []
   \<and> run default_options (initial default_options)
         (session @ after_handoff @ [Control Stop, Control Play])
       = handed_over (17 / 20) (7 / 10) (7 / 10) True False []
   \<and> run default_options (initial default_options)
         (session @ after_handoff @ [Control Pause])
       = handed_over (17 / 20) (7 / 10) (7 / 10) False True []"
  by (simp add: run_append run_session run_after_handoff step_Stop_handed_over
      stop_handed_over step_Play_handed_over step_Pause_handed_over)
     (simp add: handed_over_def html5_getCurrentTime_def)

end
